theory Spec2Isabelle
  imports Main "HOL-Library.AList" "HOL-Library.Char_ord" "HOL-Library.List_Lexorder"
    "HOL-Library.Product_Lexorder"
begin

section \<open>Printer Supply and Tray Monitor: the core of main.py\<close>

text \<open>
  The theory embeds the parsing heuristics, the alert engine and the state store of
  \<^verbatim>\<open>src/main.py\<close>. Python strings are \<^typ>\<open>string\<close>: a character is a code point
  below 256, \<^term>\<open>of_char c\<close>, so a text is one of the Latin-1 range, and the classes
  \<^verbatim>\<open>\d\<close>, \<^verbatim>\<open>\w\<close>, \<^verbatim>\<open>\s\<close> of a regular expression on \<^verbatim>\<open>str\<close> and the method
  \<^verbatim>\<open>lower\<close> are given for all of these code points. Text with a code point from 256
  on is outside the model. A Python \<^verbatim>\<open>dict\<close> is an
  association list in insertion order (\<^const>\<open>map_of\<close> reads it, \<^const>\<open>AList.update\<close> is the
  item assignment, \<^const>\<open>AList.delete\<close> removes a key); its keys are distinct.
\<close>

subsection \<open>Characters and integers\<close>

definition is_digit :: "char \<Rightarrow> bool" where
  "is_digit c = (c \<in> set ''0123456789'')"

definition is_upper :: "char \<Rightarrow> bool" where
  "is_upper c = (c \<in> set ''ABCDEFGHIJKLMNOPQRSTUVWXYZ'')"

definition is_lower :: "char \<Rightarrow> bool" where
  "is_lower c = (c \<in> set ''abcdefghijklmnopqrstuvwxyz'')"

text \<open>
  The code points from 128 to 255 that \<^verbatim>\<open>str.isalnum\<close> accepts: the ordinal
  indicators 170 and 186, the micro sign 181, the superscripts 178, 179 and 185, the
  fractions 188 to 190, and the letters 192 to 255 without the signs 215 and 247.
\<close>

definition latin1_alnum :: "char \<Rightarrow> bool" where
  "latin1_alnum c =
     (of_char c \<in> {170::nat, 178, 179, 181, 185, 186, 188, 189, 190} \<or>
      (192 \<le> (of_char c :: nat) \<and> (of_char c :: nat) \<le> 214) \<or>
      (216 \<le> (of_char c :: nat) \<and> (of_char c :: nat) \<le> 246) \<or>
      (248 \<le> (of_char c :: nat) \<and> (of_char c :: nat) \<le> 255))"

text \<open>
  \<^verbatim>\<open>\w\<close> in a pattern on \<^verbatim>\<open>str\<close>: the underscore and what \<^verbatim>\<open>str.isalnum\<close> accepts.
  \<^verbatim>\<open>\d\<close> is \<^const>\<open>is_digit\<close>: below 256 the decimal digits are \<^verbatim>\<open>0\<close> to \<^verbatim>\<open>9\<close>.
\<close>

definition is_word :: "char \<Rightarrow> bool" where
  "is_word c = (is_digit c \<or> is_upper c \<or> is_lower c \<or> c = CHR ''_'' \<or> latin1_alnum c)"

text \<open>
  \<^verbatim>\<open>\s\<close> in a pattern on \<^verbatim>\<open>str\<close>: tab, line feed, vertical tab, form feed, carriage
  return, the four separators 28 to 31, the space, the next-line control 133 and the
  no-break space 160.
\<close>

definition is_space :: "char \<Rightarrow> bool" where
  "is_space c = (of_char c \<in> {9::nat, 10, 11, 12, 13, 28, 29, 30, 31, 32, 133, 160})"

text \<open>
  \<^verbatim>\<open>str.upper\<close> on one character. The source applies it to what the character class
  of \<^verbatim>\<open>normalize_tray\<close> keeps, which are ASCII letters, digits and the hyphen.
\<close>

definition upper_char :: "char \<Rightarrow> char" where
  "upper_char c =
     (case map_of (zip ''abcdefghijklmnopqrstuvwxyz'' ''ABCDEFGHIJKLMNOPQRSTUVWXYZ'') c of
        Some u \<Rightarrow> u | None \<Rightarrow> c)"

text \<open>
  \<^verbatim>\<open>str.lower\<close> on one character: the letters \<^verbatim>\<open>A\<close> to \<^verbatim>\<open>Z\<close> and the capital letters
  192 to 222 (without the sign 215) go to the code point 32 above, every other code
  point below 256 stays.
\<close>

definition lower_char :: "char \<Rightarrow> char" where
  "lower_char c =
     (case map_of (zip ''ABCDEFGHIJKLMNOPQRSTUVWXYZ'' ''abcdefghijklmnopqrstuvwxyz'') c of
        Some l \<Rightarrow> l
      | None \<Rightarrow>
          if (192 \<le> (of_char c :: nat) \<and> (of_char c :: nat) \<le> 214) \<or>
             (216 \<le> (of_char c :: nat) \<and> (of_char c :: nat) \<le> 222)
          then char_of (of_char c + 32 :: nat) else c)"

definition upper :: "string \<Rightarrow> string" where
  "upper s = map upper_char s"

definition lower :: "string \<Rightarrow> string" where
  "lower s = map lower_char s"

text \<open>\<^verbatim>\<open>str.isdigit()\<close>: at least one character, all of them digits.\<close>

definition isdigit :: "string \<Rightarrow> bool" where
  "isdigit s = (s \<noteq> [] \<and> list_all is_digit s)"

definition startswith :: "string \<Rightarrow> string \<Rightarrow> bool" where
  "startswith s p = (take (length p) s = p)"

definition digit_value :: "char \<Rightarrow> int" where
  "digit_value c = int (of_char c) - 48"

text \<open>
  \<^verbatim>\<open>int(s)\<close> for a string of decimal digits. (An interpreter with a limit on the length
  of such a string, 4300 digits by default, raises \<^verbatim>\<open>ValueError\<close> beyond it; the model
  has no such limit.)
\<close>

definition int_of_str :: "string \<Rightarrow> int" where
  "int_of_str s = foldl (\<lambda>a c. 10 * a + digit_value c) 0 s"

definition digit_char :: "nat \<Rightarrow> char" where
  "digit_char d = ''0123456789'' ! d"

fun str_of_nat :: "nat \<Rightarrow> string" where
  "str_of_nat n =
     (if n < 10 then [digit_char n] else str_of_nat (n div 10) @ [digit_char (n mod 10)])"

declare str_of_nat.simps [simp del]

text \<open>\<^verbatim>\<open>str(n)\<close>, the rendering an f-string gives an integer.\<close>

definition str_of_int :: "int \<Rightarrow> string" where
  "str_of_int i = (if i < 0 then CHR ''-'' # str_of_nat (nat (- i)) else str_of_nat (nat i))"

subsection \<open>Tray labels\<close>

text \<open>The characters \<^verbatim>\<open>re.sub(r"[^A-Za-z0-9-]", "", value)\<close> keeps.\<close>

definition tray_char :: "char \<Rightarrow> bool" where
  "tray_char c = (is_upper c \<or> is_lower c \<or> is_digit c \<or> c = CHR ''-'')"

definition normalize_tray :: "string \<Rightarrow> string" where
  "normalize_tray v =
     (let token = upper (filter tray_char v) in
      if token = [] then ''Unknown Tray''
      else if isdigit token then ''Tray '' @ str_of_int (int_of_str token)
      else if startswith token ''TRAY'' then
        (let token' = (if drop 4 token = [] then ''UNKNOWN'' else drop 4 token) in
         if isdigit token' then ''Tray '' @ str_of_int (int_of_str token')
         else ''Tray '' @ token')
      else ''Tray '' @ token)"

subsection \<open>The regular expressions of the parsers\<close>

text \<open>
  \<^verbatim>\<open>\b\<close> holds between two positions when exactly one of the neighbouring characters
  is a word character; the start and the end of the text count as no word character.
  \<open>prev\<close> says whether the character before the position is a word character.
\<close>

definition word_boundary :: "bool \<Rightarrow> string \<Rightarrow> bool" where
  "word_boundary prev s = (prev \<noteq> (case s of [] \<Rightarrow> False | c # _ \<Rightarrow> is_word c))"

text \<open>
  \<^verbatim>\<open>\b(\d{1,3})\b\<close> tried at the start of \<open>s\<close>: the number of digits matched. The
  quantifier is greedy: it takes up to three digits and gives them back one by one
  until the closing \<^verbatim>\<open>\b\<close> holds.
\<close>

definition match_number :: "bool \<Rightarrow> string \<Rightarrow> nat option" where
  "match_number prev s =
     (if word_boundary prev s then
        find (\<lambda>d. word_boundary (is_word (s ! (d - 1))) (drop d s))
          (rev [1..<Suc (length (takeWhile is_digit (take 3 s)))])
      else None)"

text \<open>
  \<^verbatim>\<open>re.findall(r"\b(\d{1,3})\b", text)\<close>: the scan tries each position from the left and
  goes on behind a match.
\<close>

function findall_numbers :: "bool \<Rightarrow> string \<Rightarrow> string list" where
  "findall_numbers prev [] = []"
| "findall_numbers prev (c # cs) =
     (case match_number prev (c # cs) of
        Some d \<Rightarrow> take d (c # cs) # findall_numbers (is_word ((c # cs) ! (d - 1))) (drop d (c # cs))
      | None \<Rightarrow> findall_numbers (is_word c) cs)"
  by pat_completeness auto

termination
proof (relation "measure (\<lambda>(prev, s). length s)", goal_cases)
  case 1
  show ?case by simp
next
  case (2 prev c cs)
  show ?case by simp
next
  case (3 prev c cs d)
  define n where "n = length (takeWhile is_digit (take 3 (c # cs)))"
  define ds where "ds = rev [1..<Suc n]"
  from 3 have "find (\<lambda>d. word_boundary (is_word ((c # cs) ! (d - 1))) (drop d (c # cs))) ds = Some d"
    unfolding match_number_def ds_def n_def by (cases "word_boundary prev (c # cs)") simp_all
  then obtain i where "i < length ds" "d = ds ! i"
    unfolding find_Some_iff by blast
  then have "d \<in> set ds" by simp
  then have "0 < d" unfolding ds_def by auto
  then show ?case by simp
qed

text \<open>
  The other patterns of the source are sequences of single characters with one
  \<^verbatim>\<open>\s+\<close> between them, inside a pair of \<^verbatim>\<open>\b\<close>. \<open>eat\<close> matches such a sequence
  at the start of a text and returns the number of characters matched. \<open>Spaces\<close> takes
  every space there is: in each pattern the element behind it matches no space, so the
  greedy choice is the only one.
\<close>

datatype atom = Dig | Lit char | Spaces

fun eat :: "atom list \<Rightarrow> string \<Rightarrow> nat option" where
  "eat [] s = Some 0"
| "eat (a # as) [] = None"
| "eat (Dig # as) (c # cs) = (if is_digit c then map_option Suc (eat as cs) else None)"
| "eat (Lit x # as) (c # cs) = (if c = x then map_option Suc (eat as cs) else None)"
| "eat (Spaces # as) (c # cs) =
     (if is_space c then
        map_option (\<lambda>n. Suc (length (takeWhile is_space cs)) + n)
          (eat as (dropWhile is_space cs))
      else None)"

text \<open>\<^verbatim>\<open>re.search(r"\b(...)\b", text)\<close>: the leftmost match, as the text matched.\<close>

fun re_search :: "atom list \<Rightarrow> bool \<Rightarrow> string \<Rightarrow> string option" where
  "re_search p prev [] = None"
| "re_search p prev (c # cs) =
     (case (if word_boundary prev (c # cs) then eat p (c # cs) else None) of
        Some n \<Rightarrow>
          if 0 < n \<and> word_boundary (is_word ((c # cs) ! (n - 1))) (drop n (c # cs))
          then Some (take n (c # cs))
          else re_search p (is_word c) cs
      | None \<Rightarrow> re_search p (is_word c) cs)"

subsection \<open>Tail metrics\<close>

text \<open>\<^verbatim>\<open>\d{2}/\d{2}/\d{2}\s+\d{2}:\d{2}:\d{2}\<close>\<close>

definition time_pattern :: "atom list" where
  "time_pattern =
     [Dig, Dig, Lit CHR ''/'', Dig, Dig, Lit CHR ''/'', Dig, Dig, Spaces,
      Dig, Dig, Lit CHR '':'', Dig, Dig, Lit CHR '':'', Dig, Dig]"

definition level_keys :: "string list" where
  "level_keys =
     [''toner_k'', ''toner_c'', ''toner_m'', ''toner_y'',
      ''drum_k'', ''drum_c'', ''drum_m'', ''drum_y'', ''belt'', ''fuser'']"

text \<open>\<^verbatim>\<open>numbers[-10:]\<close>\<close>

definition last_ten :: "'a list \<Rightarrow> 'a list" where
  "last_ten xs = drop (length xs - 10) xs"

definition tail_numbers :: "string \<Rightarrow> int list" where
  "tail_numbers row_tail = map int_of_str (findall_numbers False row_tail)"

definition parse_tail_metrics :: "string \<Rightarrow> (string \<times> int) list \<times> string" where
  "parse_tail_metrics row_tail =
     (let last_update = (case re_search time_pattern False row_tail of
                           Some m \<Rightarrow> m | None \<Rightarrow> []);
          numbers = tail_numbers row_tail;
          levels =
            (if 10 \<le> length numbers then
               (let candidate = last_ten numbers in
                if list_all (\<lambda>v. 0 \<le> v \<and> v \<le> 100) candidate
                then zip level_keys candidate else [])
             else [])
      in (levels, last_update))"

subsection \<open>Records and alerts\<close>

text \<open>
  The dataclasses \<^verbatim>\<open>PrinterRecord\<close> and \<^verbatim>\<open>LowAlert\<close>. The fields of an alert carry the
  prefix \<open>alert_\<close> where a record field of the same name exists.
\<close>

record printer_record =
  printer_id :: string
  description :: string
  status_message :: string
  printer_text :: string
  device_last_update :: string
  row_tail :: string
  levels :: "(string \<times> int) list"
  empty_trays :: "string list"

record low_alert =
  alert_printer_id :: string
  alert_description :: string
  item :: string
  level :: string
  source :: string

definition COLOR_MAP :: "(string \<times> string) list" where
  "COLOR_MAP = [(''k'', ''Black''), (''c'', ''Cyan''), (''m'', ''Magenta''), (''y'', ''Yellow'')]"

subsection \<open>The alert engine\<close>

text \<open>
  The loop state of \<^verbatim>\<open>build_low_alerts\<close>: the list \<^verbatim>\<open>alerts\<close> and the set \<^verbatim>\<open>seen\<close> of
  deduplication keys. \<open>emit\<close> is the block
  \<^verbatim>\<open>if dedupe not in seen: alerts.append(...); seen.add(dedupe)\<close>.
\<close>

type_synonym dedupe = "string \<times> string \<times> string"

type_synonym alert_state = "low_alert list \<times> dedupe set"

definition emit :: "dedupe \<Rightarrow> low_alert \<Rightarrow> alert_state \<Rightarrow> alert_state" where
  "emit d a st = (if d \<in> snd st then st else (fst st @ [a], insert d (snd st)))"

definition mono_like :: "printer_record \<Rightarrow> bool" where
  "mono_like r =
     (let cmy_levels = [map_of (levels r) ''toner_c'', map_of (levels r) ''toner_m'',
                        map_of (levels r) ''toner_y'']
      in list_all (\<lambda>l. l = Some 0) (filter (\<lambda>l. l \<noteq> None) cmy_levels) \<and>
         list_all (\<lambda>l. l \<noteq> None) cmy_levels)"

text \<open>
  One round of the loop over the channels. \<^verbatim>\<open>COLOR_MAP[channel]\<close> is read for the four
  channels of the loop only, which are its keys.
\<close>

definition toner_step :: "printer_record \<Rightarrow> int \<Rightarrow> string \<Rightarrow> alert_state \<Rightarrow> alert_state" where
  "toner_step r toner_threshold channel st =
     (if mono_like r \<and> channel \<in> {''c'', ''m'', ''y''} then st
      else case map_of (levels r) (''toner_'' @ channel) of
        None \<Rightarrow> st
      | Some lv \<Rightarrow>
          if lv \<le> toner_threshold then
            (case map_of COLOR_MAP channel of
               None \<Rightarrow> st
             | Some color \<Rightarrow>
                 emit (printer_id r, color @ '' Toner'', ''level'')
                   \<lparr>alert_printer_id = printer_id r, alert_description = description r,
                    item = color @ '' Toner'', level = str_of_int lv @ ''%'',
                    source = ''threshold <= '' @ str_of_int toner_threshold @ ''%''\<rparr> st)
          else st)"

definition fuser_step :: "printer_record \<Rightarrow> int \<Rightarrow> alert_state \<Rightarrow> alert_state" where
  "fuser_step r fuser_threshold st =
     (case map_of (levels r) ''fuser'' of
        None \<Rightarrow> st
      | Some fuser \<Rightarrow>
          if fuser \<le> fuser_threshold then
            emit (printer_id r, ''Fuser'', ''level'')
              \<lparr>alert_printer_id = printer_id r, alert_description = description r,
               item = ''Fuser'', level = str_of_int fuser @ ''%'',
               source = ''threshold <= '' @ str_of_int fuser_threshold @ ''%''\<rparr> st
          else st)"

text \<open>\<^verbatim>\<open>f"{record.status_message} {record.printer_text}".lower()\<close>\<close>

definition status_blob :: "printer_record \<Rightarrow> string" where
  "status_blob r = lower (status_message r @ '' '' @ printer_text r)"

text \<open>\<^verbatim>\<open>\blow\s+WORD\b\<close>, without the two \<^verbatim>\<open>\b\<close> that \<^const>\<open>re_search\<close> adds.\<close>

definition low_pattern :: "string \<Rightarrow> atom list" where
  "low_pattern w = map Lit ''low'' @ [Spaces] @ map Lit w"

definition keyword_rules :: "(atom list \<times> string \<times> string) list" where
  "keyword_rules =
     [(low_pattern ''toner'', ''Toner'', ''status message reports low toner''),
      (low_pattern ''ink'', ''Ink'', ''status message reports low ink''),
      (low_pattern ''fuser'', ''Fuser'', ''status message reports low fuser'')]"

definition keyword_step ::
  "printer_record \<Rightarrow> atom list \<times> string \<times> string \<Rightarrow> alert_state \<Rightarrow> alert_state" where
  "keyword_step r rule st =
     (case rule of (pattern, it, reason) \<Rightarrow>
        if re_search pattern False (status_blob r) \<noteq> None then
          emit (printer_id r, it, reason)
            \<lparr>alert_printer_id = printer_id r, alert_description = description r,
             item = it, level = ''reported'', source = reason\<rparr> st
        else st)"

text \<open>The body of the loop over the records.\<close>

definition record_step :: "int \<Rightarrow> int \<Rightarrow> printer_record \<Rightarrow> alert_state \<Rightarrow> alert_state" where
  "record_step toner_threshold fuser_threshold r st =
     fold (keyword_step r) keyword_rules
       (fuser_step r fuser_threshold
          (fold (toner_step r toner_threshold) [''k'', ''c'', ''m'', ''y''] st))"

text \<open>
  \<^verbatim>\<open>sorted(alerts, key=lambda alert: (alert.printer_id, alert.item))\<close> is a stable sort
  on pairs of strings, compared character by character.
\<close>

definition build_low_alerts :: "printer_record list \<Rightarrow> int \<Rightarrow> int \<Rightarrow> low_alert list" where
  "build_low_alerts records toner_threshold fuser_threshold =
     sort_key (\<lambda>a. (alert_printer_id a, item a))
       (fst (fold (record_step toner_threshold fuser_threshold) records ([], {})))"

subsection \<open>The persisted document\<close>

text \<open>
  An open tray entry and a history event are dictionaries from strings to strings. The
  document \<^verbatim>\<open>StateStore.data\<close> is a dictionary with the keys \<^verbatim>\<open>open_empty_trays\<close>,
  \<^verbatim>\<open>events\<close> and \<^verbatim>\<open>last_scan_at\<close>; a document read from a file may lack any of them
  (the value \<open>None\<close>), which is why the source reads them with \<^verbatim>\<open>get\<close> and
  \<^verbatim>\<open>setdefault\<close>. \<open>other_fields\<close> holds every other key of the document, with
  values of any type \<open>'x\<close>.
\<close>

type_synonym tray_item = "(string \<times> string) list"

type_synonym event = "(string \<times> string) list"

record 'x document =
  open_empty_trays :: "(string \<times> tray_item) list option"
  events :: "event list option"
  last_scan_at :: "string option"
  other_fields :: "(string \<times> 'x) list"

definition MAX_EVENTS :: nat where
  "MAX_EVENTS = 20000"

text \<open>
  The state file, by what \<^verbatim>\<open>Path.exists\<close>, \<^verbatim>\<open>Path.read_text(encoding="utf-8")\<close> and
  \<^verbatim>\<open>json.loads\<close> make of it:
  \<^item> \<open>NoFile\<close>: \<^verbatim>\<open>exists()\<close> is false;
  \<^item> \<open>Unreadable\<close>: \<^verbatim>\<open>read_text\<close> raises \<^verbatim>\<open>OSError\<close>;
  \<^item> \<open>NotUtf8\<close>: the bytes are no UTF-8 text, \<^verbatim>\<open>read_text\<close> raises
    \<^verbatim>\<open>UnicodeDecodeError\<close>;
  \<^item> \<open>NotJson\<close>: the text is no JSON document, \<^verbatim>\<open>json.loads\<close> raises
    \<^verbatim>\<open>JSONDecodeError\<close>;
  \<^item> \<open>Stored d\<close>: the text is the JSON form of the document \<open>d\<close>.
\<close>

datatype 'x state_file = NoFile | Unreadable | NotUtf8 | NotJson | Stored "'x document"

datatype py_exception = OSError | UnicodeDecodeError | JSONDecodeError

text \<open>\<^verbatim>\<open>StateStore\<close>: the document in memory and the file at \<^verbatim>\<open>state_path\<close>.\<close>

record 'x state_store =
  data :: "'x document"
  state_file :: "'x state_file"

definition default_document :: "'x document" where
  "default_document =
     \<lparr>open_empty_trays = Some [], events = Some [], last_scan_at = Some [], other_fields = []\<rparr>"

text \<open>
  \<^verbatim>\<open>StateStore.load\<close>. The \<^verbatim>\<open>except\<close> clause names \<^verbatim>\<open>json.JSONDecodeError\<close> and
  \<^verbatim>\<open>OSError\<close>; an exception of another class leaves \<^verbatim>\<open>load\<close>.
\<close>

definition load :: "'x state_store \<Rightarrow> py_exception + 'x state_store" where
  "load s =
     (case state_file s of
        NoFile \<Rightarrow> Inr s
      | Unreadable \<Rightarrow> Inr (s\<lparr>data := default_document\<rparr>)
      | NotUtf8 \<Rightarrow> Inl UnicodeDecodeError
      | NotJson \<Rightarrow> Inr (s\<lparr>data := default_document\<rparr>)
      | Stored d \<Rightarrow> Inr (s\<lparr>data := d\<rparr>))"

text \<open>\<^verbatim>\<open>StateStore.__init__\<close>: the default document, then \<^verbatim>\<open>load\<close>.\<close>

definition init_store :: "'x state_file \<Rightarrow> py_exception + 'x state_store" where
  "init_store f = load \<lparr>data = default_document, state_file = f\<rparr>"

text \<open>
  \<^verbatim>\<open>StateStore.save\<close>: the file is replaced by the JSON form of the document. A write
  that fails is outside the model.
\<close>

definition save :: "'x state_store \<Rightarrow> 'x state_store" where
  "save s = s\<lparr>state_file := Stored (data s)\<rparr>"

definition get_open_empties :: "'x document \<Rightarrow> (string \<times> tray_item) list" where
  "get_open_empties d = (case open_empty_trays d of None \<Rightarrow> [] | Some m \<Rightarrow> m)"

definition get_events :: "'x document \<Rightarrow> event list" where
  "get_events d = (case events d of None \<Rightarrow> [] | Some es \<Rightarrow> es)"

definition get_last_scan :: "'x document \<Rightarrow> string" where
  "get_last_scan d = (case last_scan_at d of None \<Rightarrow> [] | Some t \<Rightarrow> t)"

text \<open>\<^verbatim>\<open>item.get(key, default)\<close>\<close>

definition item_get :: "tray_item \<Rightarrow> string \<Rightarrow> string \<Rightarrow> string" where
  "item_get it k dflt = (case map_of it k of None \<Rightarrow> dflt | Some v \<Rightarrow> v)"

definition make_event :: "string \<Rightarrow> string \<Rightarrow> tray_item \<Rightarrow> string \<Rightarrow> event" where
  "make_event timestamp event_type it note =
     [(''timestamp'', timestamp),
      (''event_type'', event_type),
      (''printer_id'', item_get it ''printer_id'' []),
      (''description'', item_get it ''description'' []),
      (''tray'', item_get it ''tray'' []),
      (''empty_since'', item_get it ''since'' []),
      (''last_seen'', item_get it ''last_seen'' []),
      (''status_message'', item_get it ''status_message'' []),
      (''printer_text'', item_get it ''printer_text'' []),
      (''note'', note)]"

text \<open>\<^verbatim>\<open>StateStore._append_event\<close>\<close>

definition append_event ::
  "string \<Rightarrow> string \<Rightarrow> tray_item \<Rightarrow> string \<Rightarrow> 'x document \<Rightarrow> 'x document" where
  "append_event timestamp event_type it note d =
     d\<lparr>events := Some (get_events d @ [make_event timestamp event_type it note])\<rparr>"

text \<open>\<^verbatim>\<open>events[-MAX_EVENTS:]\<close>\<close>

definition last_events :: "event list \<Rightarrow> event list" where
  "last_events es = drop (length es - MAX_EVENTS) es"

text \<open>\<^verbatim>\<open>StateStore._trim_events\<close>\<close>

definition trim_events :: "'x document \<Rightarrow> 'x document" where
  "trim_events d =
     (let es = get_events d in
      if MAX_EVENTS < length es then d\<lparr>events := Some (last_events es)\<rparr>
      else d\<lparr>events := Some es\<rparr>)"

subsection \<open>Reconciliation\<close>

text \<open>
  The first loop of \<^verbatim>\<open>StateStore.reconcile\<close>, over \<^verbatim>\<open>current_empties.items()\<close>. Its
  state is \<^verbatim>\<open>open_after\<close>, the document (for the events) and the counter \<^verbatim>\<open>added\<close>.
  The entries of the snapshot are dictionaries of their own, as
  \<^verbatim>\<open>build_current_empties\<close> makes them, so stamping one changes no other.
\<close>

type_synonym 'x scan_state = "(string \<times> tray_item) list \<times> 'x document \<times> nat"

definition reconcile_current ::
  "(string \<times> tray_item) list \<Rightarrow> string \<Rightarrow> string \<times> tray_item \<Rightarrow> 'x scan_state \<Rightarrow> 'x scan_state"
  where
  "reconcile_current previous scan_time entry st =
     (case entry of (key, it) \<Rightarrow>
      case st of (open_after, d, added) \<Rightarrow>
        (case map_of previous key of
           None \<Rightarrow>
             (let it' = AList.update ''last_seen'' scan_time
                          (AList.update ''since'' scan_time it)
              in (AList.update key it' open_after,
                  append_event scan_time ''empty'' it' ''detected by monitor'' d,
                  added + 1))
         | Some prior \<Rightarrow>
             (let it' = AList.update ''last_seen'' scan_time
                          (AList.update ''since'' (item_get prior ''since'' scan_time) it)
              in (AList.update key it' open_after, d, added))))"

text \<open>The second loop, over \<^verbatim>\<open>previous.items()\<close>.\<close>

definition reconcile_previous ::
  "(string \<times> tray_item) list \<Rightarrow> string \<Rightarrow> string \<times> tray_item \<Rightarrow>
     'x document \<times> nat \<Rightarrow> 'x document \<times> nat" where
  "reconcile_previous current_empties scan_time entry st =
     (case entry of (key, prior) \<Rightarrow>
      case st of (d, filled) \<Rightarrow>
        if map_of current_empties key = None then
          (let resolved_item = AList.update ''last_seen'' scan_time prior
           in (append_event scan_time ''filled'' resolved_item ''no longer reported empty'' d,
               filled + 1))
        else (d, filled))"

text \<open>
  \<^verbatim>\<open>StateStore.reconcile\<close> returns the store and the counts
  \<^verbatim>\<open>(new_empties, new_filled)\<close>.
\<close>

definition reconcile ::
  "'x state_store \<Rightarrow> (string \<times> tray_item) list \<Rightarrow> string \<Rightarrow> 'x state_store \<times> nat \<times> nat" where
  "reconcile s current_empties scan_time =
     (let previous = get_open_empties (data s) in
      case fold (reconcile_current previous scan_time) current_empties ([], data s, 0) of
        (open_after, d1, added) \<Rightarrow>
      case fold (reconcile_previous current_empties scan_time) previous (d1, 0) of
        (d2, filled) \<Rightarrow>
          (save (s\<lparr>data :=
                   trim_events (d2\<lparr>open_empty_trays := Some open_after,
                                   last_scan_at := Some scan_time\<rparr>)\<rparr>),
           added, filled))"

text \<open>
  \<^verbatim>\<open>StateStore.manual_mark_filled\<close> returns the store and the flag. \<^verbatim>\<open>pop\<close> with a
  default changes nothing when the key is absent.
\<close>

definition manual_mark_filled ::
  "'x state_store \<Rightarrow> string \<Rightarrow> string \<Rightarrow> 'x state_store \<times> bool" where
  "manual_mark_filled s tray_key timestamp =
     (let current = get_open_empties (data s) in
      case map_of current tray_key of
        None \<Rightarrow> (s, False)
      | Some it \<Rightarrow>
          (let it' = AList.update ''last_seen'' timestamp it;
               d1 = append_event timestamp ''filled'' it' ''manually marked filled'' (data s)
           in (save (s\<lparr>data :=
                        trim_events (d1\<lparr>open_empty_trays := Some (AList.delete tray_key current),
                                        last_scan_at := Some timestamp\<rparr>)\<rparr>),
               True)))"

section \<open>Notions for the theorems\<close>

subsection \<open>Tokens of a tail text\<close>

text \<open>
  The specification's words for what the extractor collects: every token of one to three
  digits. A token is a maximal run of word characters; \<open>number_tokens\<close> are the runs
  that are one to three digits and nothing else, from left to right.
\<close>

function word_runs :: "string \<Rightarrow> string list" where
  "word_runs [] = []"
| "word_runs (c # cs) =
     (if is_word c then takeWhile is_word (c # cs) # word_runs (dropWhile is_word cs)
      else word_runs cs)"
  by pat_completeness auto

termination
  by (relation "measure length") (auto simp: le_imp_less_Suc length_dropWhile_le)

definition number_tokens :: "string \<Rightarrow> string list" where
  "number_tokens s = filter (\<lambda>w. list_all is_digit w \<and> length w \<le> 3) (word_runs s)"

text \<open>The number of digits at the start of a text, counted up to three.\<close>

definition lead :: "string \<Rightarrow> nat" where
  "lead s = length (takeWhile is_digit (take 3 s))"

subsection \<open>Candidates of the alert engine\<close>

text \<open>
  Auxiliary notions for the theorems about the alert engine. Every step of the loop body
  offers at most one alert, with its deduplication key, to \<^const>\<open>emit\<close>. \<open>candidates\<close>
  lists what the steps for one record offer, in the order of the steps, and \<open>emits\<close>
  offers a list of candidates one after the other.
\<close>

definition emits :: "(dedupe \<times> low_alert) list \<Rightarrow> alert_state \<Rightarrow> alert_state" where
  "emits cs st = fold (\<lambda>c. emit (fst c) (snd c)) cs st"

definition toner_cands :: "printer_record \<Rightarrow> int \<Rightarrow> string \<Rightarrow> (dedupe \<times> low_alert) list" where
  "toner_cands r toner_threshold channel =
     (if mono_like r \<and> channel \<in> {''c'', ''m'', ''y''} then []
      else case map_of (levels r) (''toner_'' @ channel) of
        None \<Rightarrow> []
      | Some lv \<Rightarrow>
          if lv \<le> toner_threshold then
            (case map_of COLOR_MAP channel of
               None \<Rightarrow> []
             | Some color \<Rightarrow>
                 [((printer_id r, color @ '' Toner'', ''level''),
                   \<lparr>alert_printer_id = printer_id r, alert_description = description r,
                    item = color @ '' Toner'', level = str_of_int lv @ ''%'',
                    source = ''threshold <= '' @ str_of_int toner_threshold @ ''%''\<rparr>)])
          else [])"

definition fuser_cands :: "printer_record \<Rightarrow> int \<Rightarrow> (dedupe \<times> low_alert) list" where
  "fuser_cands r fuser_threshold =
     (case map_of (levels r) ''fuser'' of
        None \<Rightarrow> []
      | Some fuser \<Rightarrow>
          if fuser \<le> fuser_threshold then
            [((printer_id r, ''Fuser'', ''level''),
              \<lparr>alert_printer_id = printer_id r, alert_description = description r,
               item = ''Fuser'', level = str_of_int fuser @ ''%'',
               source = ''threshold <= '' @ str_of_int fuser_threshold @ ''%''\<rparr>)]
          else [])"

definition keyword_cands ::
  "printer_record \<Rightarrow> atom list \<times> string \<times> string \<Rightarrow> (dedupe \<times> low_alert) list" where
  "keyword_cands r rule =
     (case rule of (pattern, it, reason) \<Rightarrow>
        if re_search pattern False (status_blob r) \<noteq> None then
          [((printer_id r, it, reason),
            \<lparr>alert_printer_id = printer_id r, alert_description = description r,
             item = it, level = ''reported'', source = reason\<rparr>)]
        else [])"

definition candidates :: "int \<Rightarrow> int \<Rightarrow> printer_record \<Rightarrow> (dedupe \<times> low_alert) list" where
  "candidates toner_threshold fuser_threshold r =
     concat (map (toner_cands r toner_threshold) [''k'', ''c'', ''m'', ''y'']) @
     fuser_cands r fuser_threshold @
     concat (map (keyword_cands r) keyword_rules)"

text \<open>
  The first two components of a candidate's key are the printer and the item of its
  alert, which is also the key the final sort uses.
\<close>

definition key_of :: "low_alert \<Rightarrow> string \<times> string" where
  "key_of a = (alert_printer_id a, item a)"

text \<open>
  The alerts and keys that satisfy a predicate on printer and item: emitting and then
  restricting is restricting and then emitting.
\<close>

definition restrict_state :: "(string \<times> string \<Rightarrow> bool) \<Rightarrow> alert_state \<Rightarrow> alert_state" where
  "restrict_state K st =
     (filter (\<lambda>a. K (key_of a)) (fst st), {d \<in> snd st. K (fst d, fst (snd d))})"

subsection \<open>The events of one pass of the store\<close>

text \<open>
  Auxiliary notions for the theorems about the store. \<open>add_events\<close> is a run of
  \<^verbatim>\<open>_append_event\<close> calls; \<open>stamp\<close> is an entry of the snapshot after the two
  assignments of its round in the first loop.
\<close>

definition add_events :: "event list \<Rightarrow> 'x document \<Rightarrow> 'x document" where
  "add_events es d = (if es = [] then d else d\<lparr>events := Some (get_events d @ es)\<rparr>)"

definition stamp :: "(string \<times> tray_item) list \<Rightarrow> string \<Rightarrow> string \<times> tray_item \<Rightarrow> tray_item" where
  "stamp previous scan_time entry =
     AList.update ''last_seen'' scan_time
       (AList.update ''since''
          (case map_of previous (fst entry) of
             None \<Rightarrow> scan_time | Some prior \<Rightarrow> item_get prior ''since'' scan_time)
          (snd entry))"

text \<open>
  The events that the round for one entry appends, read off the loop bodies themselves
  (run on a document without events), and the log of one reconciliation: every event
  it appends, in order, each with the key of the round that appends it.
\<close>

definition round_events_current ::
  "(string \<times> tray_item) list \<Rightarrow> string \<Rightarrow> string \<times> tray_item \<Rightarrow> event list" where
  "round_events_current previous scan_time entry =
     get_events (fst (snd (reconcile_current previous scan_time entry
                             ([], default_document :: unit document, 0))))"

definition round_events_previous ::
  "(string \<times> tray_item) list \<Rightarrow> string \<Rightarrow> string \<times> tray_item \<Rightarrow> event list" where
  "round_events_previous current_empties scan_time entry =
     get_events (fst (reconcile_previous current_empties scan_time entry
                        (default_document :: unit document, 0)))"

definition reconcile_log ::
  "(string \<times> tray_item) list \<Rightarrow> (string \<times> tray_item) list \<Rightarrow> string \<Rightarrow> (string \<times> event) list"
  where
  "reconcile_log previous current_empties scan_time =
     concat (map (\<lambda>e. map (Pair (fst e)) (round_events_current previous scan_time e))
               current_empties) @
     concat (map (\<lambda>e. map (Pair (fst e)) (round_events_previous current_empties scan_time e))
               previous)"

text \<open>\<^verbatim>\<open>open_after\<close> when the first loop is through.\<close>

definition open_after_of ::
  "(string \<times> tray_item) list \<Rightarrow> (string \<times> tray_item) list \<Rightarrow> string \<Rightarrow> (string \<times> tray_item) list" where
  "open_after_of previous cur t = fold (\<lambda>e. AList.update (fst e) (stamp previous t e)) cur []"

text \<open>The two event types the store writes.\<close>

definition known_event_type :: "event \<Rightarrow> bool" where
  "known_event_type e =
     (map_of e ''event_type'' = Some ''empty'' \<or> map_of e ''event_type'' = Some ''filled'')"

section \<open>Tray label normalisation\<close>

lemmas string_eval =
  upper_def upper_char_def lower_def lower_char_def tray_char_def is_upper_def is_lower_def
  is_digit_def is_word_def latin1_alnum_def isdigit_def startswith_def int_of_str_def
  digit_value_def str_of_int_def str_of_nat.simps digit_char_def

lemma normalize_tray_empty_token:
  "filter tray_char v = [] \<Longrightarrow> normalize_tray v = ''Unknown Tray''"
  by (simp add: normalize_tray_def upper_def)

text \<open>
  C3, as the specification states it, fails: the hyphen is one of the characters the
  normalisation keeps, so \<^verbatim>\<open>"TRAY-B"\<close> becomes \<^verbatim>\<open>"Tray -B"\<close> and not
  \<^verbatim>\<open>"Tray B"\<close>.
\<close>

theorem normalize_tray_hyphen_counterexample:
  "normalize_tray ''TRAY-B'' \<noteq> ''Tray B''"
  by (simp add: normalize_tray_def string_eval)

text \<open>
  C3 (amended): tray label normalisation maps \<^verbatim>\<open>"tray07"\<close> to \<^verbatim>\<open>"Tray 7"\<close>, maps
  \<^verbatim>\<open>"TRAY-B"\<close> to \<^verbatim>\<open>"Tray -B"\<close> (the hyphen is kept), and maps every input with no
  letter, digit or hyphen in it to \<^verbatim>\<open>"Unknown Tray"\<close>.
\<close>

theorem normalize_tray_examples:
  "normalize_tray ''tray07'' = ''Tray 7'' \<and>
   normalize_tray ''TRAY-B'' = ''Tray -B'' \<and>
   (filter tray_char v = [] \<longrightarrow> normalize_tray v = ''Unknown Tray'')"
proof (intro conjI impI)
  show "normalize_tray ''tray07'' = ''Tray 7''"
    by (simp add: normalize_tray_def string_eval)
  show "normalize_tray ''TRAY-B'' = ''Tray -B''"
    by (simp add: normalize_tray_def string_eval)
  show "normalize_tray v = ''Unknown Tray''" if "filter tray_char v = []"
    using that by (rule normalize_tray_empty_token)
qed

theorem normalize_tray_examples_witness:
  "filter tray_char '' #?! '' = [] \<and> normalize_tray '' #?! '' = ''Unknown Tray''"
proof -
  have h: "filter tray_char '' #?! '' = []"
    by (simp add: string_eval)
  with normalize_tray_examples [of "'' #?! ''"] show ?thesis
    by blast
qed

section \<open>Tail metrics\<close>

lemma is_digit_word: "is_digit c \<Longrightarrow> is_word c"
  by (simp add: is_word_def)

lemma find_None_all: "(\<And>x. x \<in> set xs \<Longrightarrow> \<not> P x) \<Longrightarrow> find P xs = None"
  by (simp add: find_None_iff)

lemma lead_le: "lead s \<le> 3" "lead s \<le> length s"
  unfolding lead_def
  by (metis le_trans length_takeWhile_le length_take min.cobounded2,
      metis le_trans length_takeWhile_le length_take min.cobounded1)

lemma lead_digits: "i < lead s \<Longrightarrow> is_digit (s ! i)"
proof -
  assume a: "i < lead s"
  then have "i < length (takeWhile is_digit (take 3 s))" by (simp add: lead_def)
  then have "is_digit (takeWhile is_digit (take 3 s) ! i)"
    using nth_mem set_takeWhileD by metis
  moreover have "takeWhile is_digit (take 3 s) ! i = take 3 s ! i"
    using a by (simp add: lead_def takeWhile_nth)
  moreover have "take 3 s ! i = s ! i"
    using a lead_le(1) [of s] by simp
  ultimately show ?thesis by simp
qed

lemma match_number_eq:
  "match_number prev s =
     (if word_boundary prev s \<and> 0 < lead s \<and> word_boundary True (drop (lead s) s)
      then Some (lead s) else None)"
proof (cases "word_boundary prev s \<and> 0 < lead s")
  case False
  then show ?thesis by (auto simp: match_number_def lead_def)
next
  case True
  let ?P = "\<lambda>d. word_boundary (is_word (s ! (d - 1))) (drop d s)"
  have rev: "rev [1..<Suc (lead s)] = lead s # rev [1..<lead s]"
    using True by (simp add: upt_rec [of 1] upt_Suc)
  have rest: "find ?P (rev [1..<lead s]) = None"
  proof (rule find_None_all)
    fix d assume "d \<in> set (rev [1..<lead s])"
    then have d: "1 \<le> d" "d < lead s" by auto
    then have "is_digit (s ! (d - 1))" "is_digit (s ! d)" by (auto intro: lead_digits)
    moreover from d lead_le(2) [of s] have "drop d s = s ! d # drop (Suc d) s"
      by (simp add: Cons_nth_drop_Suc)
    ultimately show "\<not> ?P d" by (simp add: word_boundary_def is_digit_word)
  qed
  have "is_digit (s ! (lead s - 1))" using True by (auto intro: lead_digits)
  then have "?P (lead s) = word_boundary True (drop (lead s) s)"
    by (simp add: is_digit_word)
  with True rev rest show ?thesis
    by (simp add: match_number_def lead_def [symmetric])
qed

lemma number_tokens_Nil [simp]: "number_tokens [] = []"
  by (simp add: number_tokens_def)

lemma number_tokens_skip: "\<not> is_word c \<Longrightarrow> number_tokens (c # cs) = number_tokens cs"
  by (simp add: number_tokens_def)

lemma number_tokens_word:
  "is_word c \<Longrightarrow>
   number_tokens (c # cs) =
     (if list_all is_digit (takeWhile is_word (c # cs)) \<and> length (takeWhile is_word (c # cs)) \<le> 3
      then [takeWhile is_word (c # cs)] else []) @
     number_tokens (dropWhile is_word (c # cs))"
  by (simp add: number_tokens_def)

lemma lead_stop: "lead s < 3 \<Longrightarrow> lead s < length s \<Longrightarrow> \<not> is_digit (s ! lead s)"
proof -
  assume a: "lead s < 3" "lead s < length s"
  then have "length (takeWhile is_digit (take 3 s)) < length (take 3 s)"
    by (simp add: lead_def)
  then have "\<not> is_digit (take 3 s ! length (takeWhile is_digit (take 3 s)))"
    by (rule nth_length_takeWhile)
  with a show ?thesis by (simp add: lead_def)
qed

lemma lead_prefix_word: "\<forall>x \<in> set (take (lead s) s). is_word x"
proof
  fix x assume "x \<in> set (take (lead s) s)"
  then obtain i where "i < lead s" "x = s ! i"
    using lead_le(2) [of s] by (auto simp: in_set_conv_nth)
  then show "is_word x" by (simp add: lead_digits is_digit_word)
qed

lemma lead_prefix_digit: "list_all is_digit (take (lead s) s)"
proof -
  have "\<forall>x \<in> set (take (lead s) s). is_digit x"
  proof
    fix x assume "x \<in> set (take (lead s) s)"
    then obtain i where "i < lead s" "x = s ! i"
      using lead_le(2) [of s] by (auto simp: in_set_conv_nth)
    then show "is_digit x" by (simp add: lead_digits)
  qed
  then show ?thesis by (simp add: list_all_iff)
qed

lemma lead_0: "\<not> is_digit c \<Longrightarrow> lead (c # cs) = 0"
  by (simp add: lead_def take_Cons')

lemma lead_pos: "is_digit c \<Longrightarrow> 0 < lead (c # cs)"
  by (simp add: lead_def take_Cons')

lemma run_split:
  "takeWhile is_word s = take (lead s) s @ takeWhile is_word (drop (lead s) s)"
  "dropWhile is_word s = dropWhile is_word (drop (lead s) s)"
proof -
  have s: "s = take (lead s) s @ drop (lead s) s" by simp
  show "takeWhile is_word s = take (lead s) s @ takeWhile is_word (drop (lead s) s)"
    by (subst s, subst takeWhile_append2) (use lead_prefix_word in auto)
  show "dropWhile is_word s = dropWhile is_word (drop (lead s) s)"
    by (subst s, subst dropWhile_append2) (use lead_prefix_word in auto)
qed

lemma findall_numbers_tokens:
  "findall_numbers prev s = number_tokens (if prev then dropWhile is_word s else s)"
proof (induction prev s rule: findall_numbers.induct)
  case (1 prev)
  then show ?case by simp
next
  case (2 prev c cs)
  let ?s = "c # cs"
  let ?n = "lead ?s"
  show ?case
  proof (cases "match_number prev ?s")
    case None
    from "2.IH"(1) [OF None]
    have IH: "findall_numbers (is_word c) cs =
        number_tokens (if is_word c then dropWhile is_word cs else cs)" .
    have step: "findall_numbers prev ?s = findall_numbers (is_word c) cs"
      using None by simp
    show ?thesis
    proof (cases prev)
      case True
      then show ?thesis using step IH by (simp add: number_tokens_skip)
    next
      case False
      show ?thesis
      proof (cases "is_word c")
        case nw: False
        then show ?thesis using step IH False by (simp add: number_tokens_skip)
      next
        case w: True
        from None False w have nb: "?n = 0 \<or> \<not> word_boundary True (drop ?n ?s)"
          by (auto simp: match_number_eq word_boundary_def split: if_splits)
        have "\<not> (list_all is_digit (takeWhile is_word ?s) \<and> length (takeWhile is_word ?s) \<le> 3)"
        proof (cases "?n = 0")
          case True
          then have "\<not> is_digit c" using lead_pos [of c cs] by auto
          with w show ?thesis by simp
        next
          case n: False
          with nb obtain x r where xr: "drop ?n ?s = x # r" "is_word x"
            by (auto simp: word_boundary_def split: list.splits)
          then have run: "takeWhile is_word ?s = take ?n ?s @ x # takeWhile is_word r"
            by (subst run_split(1)) simp
          have len: "?n < length ?s" using xr(1) by (metis drop_all linorder_not_less list.discI)
          then have x: "x = ?s ! ?n" using xr(1) by (metis nth_via_drop)
          show ?thesis
          proof (cases "?n < 3")
            case True
            from this len have "\<not> is_digit (?s ! ?n)" by (rule lead_stop)
            with x show ?thesis by (simp add: run del: takeWhile.simps)
          next
            case False
            with lead_le(1) [of ?s] have "?n = 3" by simp
            moreover from len have "length (take ?n ?s) = ?n" by simp
            ultimately have "3 < length (takeWhile is_word ?s)"
              by (simp add: run del: takeWhile.simps)
            then show ?thesis by simp
          qed
        qed
        with w have "number_tokens ?s = number_tokens (dropWhile is_word ?s)"
          by (simp add: number_tokens_word del: takeWhile.simps dropWhile.simps)
        with step IH False w show ?thesis by simp
      qed
    qed
  next
    case (Some d)
    then have m: "word_boundary prev ?s" "0 < ?n" "word_boundary True (drop ?n ?s)" "d = ?n"
      by (auto simp: match_number_eq split: if_splits)
    then have dig: "is_digit c" using lead_0 [of c cs] by auto
    then have w: "is_word c" by (rule is_digit_word)
    with m(1) have prev: "\<not> prev" by (simp add: word_boundary_def)
    have last: "is_word (?s ! (?n - 1))"
      using m(2) by (intro is_digit_word lead_digits) simp
    from "2.IH"(2) [OF Some] m(4) last
    have IH: "findall_numbers True (drop ?n ?s) = number_tokens (dropWhile is_word (drop ?n ?s))"
      by simp
    have stop: "takeWhile is_word (drop ?n ?s) = []" "dropWhile is_word (drop ?n ?s) = drop ?n ?s"
      using m(3) by (auto simp: word_boundary_def split: list.splits)
    have run: "takeWhile is_word ?s = take ?n ?s" "dropWhile is_word ?s = drop ?n ?s"
      using run_split [of ?s] stop by simp_all
    have "length (take ?n ?s) \<le> 3" using lead_le(1) [of ?s] by simp
    with w have "number_tokens ?s = take ?n ?s # number_tokens (drop ?n ?s)"
      by (simp add: number_tokens_word run lead_prefix_digit del: takeWhile.simps dropWhile.simps)
    moreover have "findall_numbers prev ?s = take ?n ?s # findall_numbers True (drop ?n ?s)"
      using Some m(4) last by simp
    ultimately show ?thesis using IH stop prev by simp
  qed
qed

lemma length_last_ten: "10 \<le> length xs \<Longrightarrow> length (last_ten xs) = 10"
  by (simp add: last_ten_def)

text \<open>
  C4: for every tail text, the numbers the extractor collects are the values of all its
  tokens of one to three digits. If there are at least ten of them and the last ten all
  lie in \<open>[0, 100]\<close>, the levels are these ten, in their order, under the keys
  \<^verbatim>\<open>toner_k, toner_c, toner_m, toner_y, drum_k, drum_c, drum_m, drum_y, belt, fuser\<close>.
  If there are fewer than ten, or one of the last ten is outside \<open>[0, 100]\<close>, the
  levels are empty.
\<close>

theorem parse_tail_metrics_levels:
  "tail_numbers row = map int_of_str (number_tokens row) \<and>
   (10 \<le> length (tail_numbers row) \<and>
    list_all (\<lambda>v. 0 \<le> v \<and> v \<le> 100) (last_ten (tail_numbers row)) \<longrightarrow>
      map fst (fst (parse_tail_metrics row)) =
        [''toner_k'', ''toner_c'', ''toner_m'', ''toner_y'',
         ''drum_k'', ''drum_c'', ''drum_m'', ''drum_y'', ''belt'', ''fuser''] \<and>
      map snd (fst (parse_tail_metrics row)) = last_ten (tail_numbers row)) \<and>
   (length (tail_numbers row) < 10 \<or>
    \<not> list_all (\<lambda>v. 0 \<le> v \<and> v \<le> 100) (last_ten (tail_numbers row)) \<longrightarrow>
      fst (parse_tail_metrics row) = [])"
proof (intro conjI impI)
  show "tail_numbers row = map int_of_str (number_tokens row)"
    by (simp add: tail_numbers_def findall_numbers_tokens)
next
  assume ok: "10 \<le> length (tail_numbers row) \<and>
    list_all (\<lambda>v. 0 \<le> v \<and> v \<le> 100) (last_ten (tail_numbers row))"
  then have lv: "fst (parse_tail_metrics row) = zip level_keys (last_ten (tail_numbers row))"
    by (simp add: parse_tail_metrics_def Let_def)
  from ok have len: "length (last_ten (tail_numbers row)) = length level_keys"
    by (simp add: length_last_ten level_keys_def)
  show "map fst (fst (parse_tail_metrics row)) =
      [''toner_k'', ''toner_c'', ''toner_m'', ''toner_y'',
       ''drum_k'', ''drum_c'', ''drum_m'', ''drum_y'', ''belt'', ''fuser'']"
    using len by (simp only: lv map_fst_zip) (simp add: level_keys_def)
  show "map snd (fst (parse_tail_metrics row)) = last_ten (tail_numbers row)"
    using len by (simp only: lv map_snd_zip)
next
  assume "length (tail_numbers row) < 10 \<or>
    \<not> list_all (\<lambda>v. 0 \<le> v \<and> v \<le> 100) (last_ten (tail_numbers row))"
  then show "fst (parse_tail_metrics row) = []"
    by (auto simp: parse_tail_metrics_def Let_def)
qed

lemma tail_numbers_example:
  "tail_numbers ''5 0 0 0 90 80 70 60 50 40'' = [5, 0, 0, 0, 90, 80, 70, 60, 50, 40]"
  by (simp add: tail_numbers_def match_number_def word_boundary_def string_eval)

lemma tail_numbers_example2:
  "tail_numbers ''x1 250 3'' = [250, 3]"
  by (simp add: tail_numbers_def match_number_def word_boundary_def string_eval)

theorem parse_tail_metrics_levels_witness:
  "10 \<le> length (tail_numbers ''5 0 0 0 90 80 70 60 50 40'') \<and>
   list_all (\<lambda>v. 0 \<le> v \<and> v \<le> 100) (last_ten (tail_numbers ''5 0 0 0 90 80 70 60 50 40'')) \<and>
   map fst (fst (parse_tail_metrics ''5 0 0 0 90 80 70 60 50 40'')) =
     [''toner_k'', ''toner_c'', ''toner_m'', ''toner_y'',
      ''drum_k'', ''drum_c'', ''drum_m'', ''drum_y'', ''belt'', ''fuser''] \<and>
   map snd (fst (parse_tail_metrics ''5 0 0 0 90 80 70 60 50 40'')) =
     [5, 0, 0, 0, 90, 80, 70, 60, 50, 40] \<and>
   length (tail_numbers ''x1 250 3'') < 10 \<and>
   fst (parse_tail_metrics ''x1 250 3'') = []"
proof -
  have a: "10 \<le> length (tail_numbers ''5 0 0 0 90 80 70 60 50 40'') \<and>
      list_all (\<lambda>v. 0 \<le> v \<and> v \<le> 100) (last_ten (tail_numbers ''5 0 0 0 90 80 70 60 50 40''))"
    by (simp add: tail_numbers_example last_ten_def)
  have b: "length (tail_numbers ''x1 250 3'') < 10"
    by (simp add: tail_numbers_example2)
  have c: "last_ten (tail_numbers ''5 0 0 0 90 80 70 60 50 40'') = [5, 0, 0, 0, 90, 80, 70, 60, 50, 40]"
    by (simp add: tail_numbers_example last_ten_def)
  from parse_tail_metrics_levels [of "''5 0 0 0 90 80 70 60 50 40''"] a c
  have "map fst (fst (parse_tail_metrics ''5 0 0 0 90 80 70 60 50 40'')) =
     [''toner_k'', ''toner_c'', ''toner_m'', ''toner_y'',
      ''drum_k'', ''drum_c'', ''drum_m'', ''drum_y'', ''belt'', ''fuser''] \<and>
     map snd (fst (parse_tail_metrics ''5 0 0 0 90 80 70 60 50 40'')) =
     [5, 0, 0, 0, 90, 80, 70, 60, 50, 40]"
    by simp
  moreover from parse_tail_metrics_levels [of "''x1 250 3''"] b
  have "fst (parse_tail_metrics ''x1 250 3'') = []"
    by blast
  ultimately show ?thesis using a b by blast
qed

section \<open>The alert engine\<close>

lemma emits_Nil [simp]: "emits [] st = st"
  by (simp add: emits_def)

lemma emits_Cons [simp]: "emits (c # cs) st = emits cs (emit (fst c) (snd c) st)"
  by (simp add: emits_def)

lemma emits_append [simp]: "emits (xs @ ys) st = emits ys (emits xs st)"
  by (simp add: emits_def)

lemma toner_step_emits: "toner_step r tt ch st = emits (toner_cands r tt ch) st"
  by (auto simp: toner_step_def toner_cands_def split: option.splits)

lemma fuser_step_emits: "fuser_step r ft st = emits (fuser_cands r ft) st"
  by (simp add: fuser_step_def fuser_cands_def split: option.splits)

lemma keyword_step_emits: "keyword_step r kr st = emits (keyword_cands r kr) st"
  by (cases kr) (simp add: keyword_step_def keyword_cands_def)

lemma fold_emits_concat:
  "(\<And>x st. f x st = emits (g x) st) \<Longrightarrow> fold f xs st = emits (concat (map g xs)) st"
  by (induction xs arbitrary: st) simp_all

lemma record_step_emits: "record_step tt ft r st = emits (candidates tt ft r) st"
proof -
  have k: "fold (keyword_step r) krs st = emits (concat (map (keyword_cands r) krs)) st"
    for krs st by (rule fold_emits_concat) (rule keyword_step_emits)
  show ?thesis
    unfolding record_step_def candidates_def
    by (simp add: toner_step_emits k fuser_step_emits)
qed

lemma fold_record_step:
  "fold (record_step tt ft) rs st = emits (concat (map (candidates tt ft) rs)) st"
  by (rule fold_emits_concat) (rule record_step_emits)

lemma build_low_alerts_emits:
  "build_low_alerts rs tt ft =
     sort_key (\<lambda>a. (alert_printer_id a, item a))
       (fst (emits (concat (map (candidates tt ft) rs)) ([], {})))"
  by (simp add: build_low_alerts_def fold_record_step)

lemma toner_cands_shape:
  "toner_cands r th ch = [] \<or>
   (\<exists>x l. toner_cands r th ch =
      [((printer_id r, x, ''level''),
        \<lparr>alert_printer_id = printer_id r, alert_description = description r,
         item = x, level = l, source = ''threshold <= '' @ str_of_int th @ ''%''\<rparr>)])"
  by (simp add: toner_cands_def split: option.splits)

lemma fuser_cands_shape:
  "fuser_cands r th = [] \<or>
   (\<exists>l. fuser_cands r th =
      [((printer_id r, ''Fuser'', ''level''),
        \<lparr>alert_printer_id = printer_id r, alert_description = description r,
         item = ''Fuser'', level = l, source = ''threshold <= '' @ str_of_int th @ ''%''\<rparr>)])"
  by (simp add: fuser_cands_def split: option.splits)

lemma keyword_cands_shape:
  "keyword_cands r kr = [] \<or>
   keyword_cands r kr =
      [((printer_id r, fst (snd kr), snd (snd kr)),
        \<lparr>alert_printer_id = printer_id r, alert_description = description r,
         item = fst (snd kr), level = ''reported'', source = snd (snd kr)\<rparr>)]"
  by (cases kr) (simp add: keyword_cands_def)

lemma candidates_key:
  assumes "c \<in> set (candidates th ft r)"
  shows "fst (fst c) = printer_id r \<and> key_of (snd c) = (fst (fst c), fst (snd (fst c)))"
proof -
  from assms consider ch where "c \<in> set (toner_cands r th ch)" | "c \<in> set (fuser_cands r ft)"
    | kr where "c \<in> set (keyword_cands r kr)"
    unfolding candidates_def by auto
  then show ?thesis
  proof cases
    case 1
    with toner_cands_shape [of r th ch] show ?thesis by (auto simp: key_of_def)
  next
    case 2
    with fuser_cands_shape [of r ft] show ?thesis by (auto simp: key_of_def)
  next
    case 3
    with keyword_cands_shape [of r kr] show ?thesis by (auto simp: key_of_def)
  qed
qed

lemma restrict_emits:
  assumes "\<forall>c \<in> set cs. key_of (snd c) = (fst (fst c), fst (snd (fst c)))"
  shows "restrict_state K (emits cs st) =
     emits (filter (\<lambda>c. K (fst (fst c), fst (snd (fst c)))) cs) (restrict_state K st)"
  using assms
proof (induction cs arbitrary: st)
  case Nil
  then show ?case by simp
next
  case (Cons c cs)
  have "restrict_state K (emit (fst c) (snd c) st) =
      (if K (fst (fst c), fst (snd (fst c))) then emit (fst c) (snd c) (restrict_state K st)
       else restrict_state K st)"
    using Cons.prems by (auto simp: restrict_state_def emit_def)
  with Cons show ?case by simp
qed

lemma emit_seen: "d \<in> snd st \<Longrightarrow> emit d a st = st"
  by (simp add: emit_def)

lemma emits_seen: "fst ` set cs \<subseteq> snd st \<Longrightarrow> emits cs st = st"
  by (induction cs arbitrary: st) (auto simp: emit_seen)

lemma snd_emit: "snd (emit d a st) = insert d (snd st)"
  by (auto simp: emit_def)

lemma snd_emits: "snd (emits cs st) = fst ` set cs \<union> snd st"
  by (induction cs arbitrary: st) (auto simp: snd_emit)

lemma emits_idem: "emits cs (emits cs st) = emits cs st"
  by (rule emits_seen) (simp add: snd_emits)

lemma emits_repeat:
  assumes "\<forall>x \<in> set xs. g x = cs \<or> g x = []"
  shows "emits (concat (map g xs)) st = (if \<exists>x \<in> set xs. g x = cs then emits cs st else st)"
  using assms
proof (induction xs rule: rev_induct)
  case Nil
  then show ?case by simp
next
  case (snoc x xs)
  then show ?case by (cases "cs = []") (auto simp: emits_idem)
qed

lemma length_emits:
  "length (fst (emits cs st)) = length (fst st) + card (fst ` set cs - snd st)"
proof (induction cs arbitrary: st)
  case Nil
  then show ?case by simp
next
  case (Cons c cs)
  show ?case
  proof (cases "fst c \<in> snd st")
    case True
    then have "insert (fst c) (fst ` set cs) - snd st = fst ` set cs - snd st" by auto
    with True Cons show ?thesis by (simp add: emit_seen)
  next
    case False
    then have e: "emit (fst c) (snd c) st = (fst st @ [snd c], insert (fst c) (snd st))"
      by (simp add: emit_def)
    have "insert (fst c) (fst ` set cs) - snd st =
        insert (fst c) (fst ` set cs - insert (fst c) (snd st))"
      using False by auto
    moreover have "fst c \<notin> fst ` set cs - insert (fst c) (snd st)" by simp
    ultimately have "card (insert (fst c) (fst ` set cs) - snd st) =
        Suc (card (fst ` set cs - insert (fst c) (snd st)))"
      by (simp add: card_insert_disjoint)
    with Cons [of "(fst st @ [snd c], insert (fst c) (snd st))"] e show ?thesis by simp
  qed
qed

lemma filter_key_of_emits:
  assumes "\<forall>c \<in> set cs. key_of (snd c) = (fst (fst c), fst (snd (fst c)))"
  shows "filter (\<lambda>a. K (key_of a)) (fst (emits cs ([], {}))) =
     fst (emits (filter (\<lambda>c. K (fst (fst c), fst (snd (fst c)))) cs) ([], {}))"
proof -
  have "filter (\<lambda>a. K (key_of a)) (fst (emits cs ([], {}))) =
      fst (restrict_state K (emits cs ([], {})))"
    by (simp add: restrict_state_def)
  also have "\<dots> = fst (emits (filter (\<lambda>c. K (fst (fst c), fst (snd (fst c)))) cs)
      (restrict_state K ([], {})))"
    by (simp only: restrict_emits [OF assms])
  finally show ?thesis by (simp add: restrict_state_def)
qed

lemma all_candidates_key:
  "\<forall>c \<in> set (concat (map (candidates th ft) rs)).
     key_of (snd c) = (fst (fst c), fst (snd (fst c)))"
  by (auto dest: candidates_key)

lemma filter_build_low_alerts:
  "filter (\<lambda>a. K (key_of a)) (build_low_alerts rs th ft) =
     sort_key (\<lambda>a. (alert_printer_id a, item a))
       (fst (emits (concat (map (\<lambda>r. filter (\<lambda>c. K (fst (fst c), fst (snd (fst c))))
                                        (candidates th ft r)) rs)) ([], {})))"
  by (simp add: build_low_alerts_emits filter_sort
      filter_key_of_emits [OF all_candidates_key] filter_concat comp_def)

text \<open>
  The alerts of one printer, when every record of the list that has its id is the same
  record, are the alerts of that record alone.
\<close>

lemma device_alerts:
  assumes r: "r \<in> set rs"
    and only: "\<forall>r' \<in> set rs. printer_id r' = printer_id r \<longrightarrow> r' = r"
  shows "filter (\<lambda>a. alert_printer_id a = printer_id r) (build_low_alerts rs th ft) =
     build_low_alerts [r] th ft"
proof -
  define K :: "string \<times> string \<Rightarrow> bool" where "K = (\<lambda>k. fst k = printer_id r)"
  define g where "g = (\<lambda>r'. filter (\<lambda>c. K (fst (fst c), fst (snd (fst c)))) (candidates th ft r'))"
  have g: "g r' = (if printer_id r' = printer_id r then candidates th ft r' else [])" for r'
    by (auto simp: g_def K_def filter_empty_conv filter_id_conv dest: candidates_key)
  have "\<forall>x \<in> set rs. g x = candidates th ft r \<or> g x = []"
    using only by (auto simp: g)
  moreover have "\<exists>x \<in> set rs. g x = candidates th ft r"
    using r by (auto simp: g)
  ultimately have "emits (concat (map g rs)) ([], {}) = emits (candidates th ft r) ([], {})"
    by (simp add: emits_repeat [where cs = "candidates th ft r"])
  moreover have "(\<lambda>a. alert_printer_id a = printer_id r) = (\<lambda>a. K (key_of a))"
    by (simp add: key_of_def K_def)
  moreover have "filter (\<lambda>a. K (key_of a)) (build_low_alerts rs th ft) =
     sort_key (\<lambda>a. (alert_printer_id a, item a)) (fst (emits (concat (map g rs)) ([], {})))"
    unfolding g_def by (rule filter_build_low_alerts)
  ultimately show ?thesis
    by (simp add: build_low_alerts_emits)
qed

lemma mono_record_candidates:
  assumes k: "map_of (levels r) ''toner_k'' = Some 5"
    and cmy: "map_of (levels r) ''toner_c'' = Some 0" "map_of (levels r) ''toner_m'' = Some 0"
      "map_of (levels r) ''toner_y'' = Some 0"
    and quiet: "\<forall>rule \<in> set keyword_rules. re_search (fst rule) False (status_blob r) = None"
  shows "candidates 15 ft r =
     ((printer_id r, ''Black Toner'', ''level''),
      \<lparr>alert_printer_id = printer_id r, alert_description = description r,
       item = ''Black Toner'', level = ''5%'', source = ''threshold <= 15%''\<rparr>) #
     fuser_cands r ft"
proof -
  have mono: "mono_like r"
    using cmy by (simp add: mono_like_def)
  have black: "toner_cands r 15 ''k'' =
     [((printer_id r, ''Black Toner'', ''level''),
       \<lparr>alert_printer_id = printer_id r, alert_description = description r,
        item = ''Black Toner'', level = ''5%'', source = ''threshold <= 15%''\<rparr>)]"
    using k by (simp add: toner_cands_def COLOR_MAP_def string_eval)
  have colour: "toner_cands r 15 ''c'' = []" "toner_cands r 15 ''m'' = []"
    "toner_cands r 15 ''y'' = []"
    using mono by (simp_all add: toner_cands_def)
  have "keyword_cands r kr = []" if "kr \<in> set keyword_rules" for kr
  proof -
    from that quiet have "re_search (fst kr) False (status_blob r) = None" by blast
    then show ?thesis by (cases kr) (simp add: keyword_cands_def)
  qed
  then have "concat (map (keyword_cands r) keyword_rules) = []"
    by simp
  with black colour show ?thesis
    by (simp add: candidates_def)
qed

lemma sort_key_two:
  "f a \<le> f b \<Longrightarrow> sort_key f [a, b] = [a, b]"
  by simp

lemma mono_record_alerts:
  assumes k: "map_of (levels r) ''toner_k'' = Some 5"
    and cmy: "map_of (levels r) ''toner_c'' = Some 0" "map_of (levels r) ''toner_m'' = Some 0"
      "map_of (levels r) ''toner_y'' = Some 0"
    and quiet: "\<forall>rule \<in> set keyword_rules. re_search (fst rule) False (status_blob r) = None"
  shows "build_low_alerts [r] 15 ft =
     \<lparr>alert_printer_id = printer_id r, alert_description = description r,
      item = ''Black Toner'', level = ''5%'', source = ''threshold <= 15%''\<rparr> #
     (case map_of (levels r) ''fuser'' of
        None \<Rightarrow> []
      | Some f \<Rightarrow>
          if f \<le> ft then
            [\<lparr>alert_printer_id = printer_id r, alert_description = description r,
              item = ''Fuser'', level = str_of_int f @ ''%'',
              source = ''threshold <= '' @ str_of_int ft @ ''%''\<rparr>]
          else [])"
proof -
  have le: "(printer_id r, ''Black Toner'') \<le> (printer_id r, ''Fuser'')"
    by (simp add: less_eq_prod_def less_char_def)
  show ?thesis
    using le
    by (simp add: build_low_alerts_emits mono_record_candidates [OF assms] fuser_cands_def
        emit_def split: option.splits)
qed

lemma toner_item_not_fuser: "color @ '' Toner'' \<noteq> ''Fuser''"
proof
  assume "color @ '' Toner'' = ''Fuser''"
  then have "length (color @ '' Toner'') = length ''Fuser''" by simp
  then show False by simp
qed

lemma toner_cands_item:
  "c \<in> set (toner_cands r th ch) \<Longrightarrow> \<exists>color. fst (snd (fst c)) = color @ '' Toner''"
proof -
  have "toner_cands r th ch = [] \<or>
     (\<exists>color a. toner_cands r th ch = [((printer_id r, color @ '' Toner'', ''level''), a)])"
    by (simp add: toner_cands_def split: option.splits)
  moreover assume "c \<in> set (toner_cands r th ch)"
  ultimately show ?thesis by auto
qed

lemma keyword_cands_fuser:
  assumes "kr \<in> set keyword_rules" "c \<in> set (keyword_cands r kr)" "fst (snd (fst c)) = ''Fuser''"
  shows "fst c = (printer_id r, ''Fuser'', ''status message reports low fuser'')"
proof -
  from assms(2) keyword_cands_shape [of r kr]
  have c: "fst c = (printer_id r, fst (snd kr), snd (snd kr))" by auto
  with assms(3) have "fst (snd kr) = ''Fuser''" by simp
  with assms(1) have "snd (snd kr) = ''status message reports low fuser''"
    by (auto simp: keyword_rules_def)
  with c assms(3) show ?thesis by simp
qed

lemma fuser_candidate_keys:
  assumes "c \<in> set (candidates th ft r)" "fst (snd (fst c)) = ''Fuser''"
  shows "fst c = (printer_id r, ''Fuser'', ''level'') \<or>
         fst c = (printer_id r, ''Fuser'', ''status message reports low fuser'')"
proof -
  from assms(1) consider ch where "c \<in> set (toner_cands r th ch)" | "c \<in> set (fuser_cands r ft)"
    | kr where "kr \<in> set keyword_rules" "c \<in> set (keyword_cands r kr)"
    unfolding candidates_def by auto
  then show ?thesis
  proof cases
    case 1
    with assms(2) toner_item_not_fuser show ?thesis by (auto dest!: toner_cands_item)
  next
    case 2
    with fuser_cands_shape [of r ft] show ?thesis by auto
  next
    case 3
    with assms(2) show ?thesis by (auto dest: keyword_cands_fuser)
  qed
qed

lemma fuser_candidates:
  assumes lv: "map_of (levels r) ''fuser'' = Some n" "n \<le> ft"
    and kw: "re_search (low_pattern ''fuser'') False (status_blob r) \<noteq> None"
  shows "filter (\<lambda>c. (fst (fst c), fst (snd (fst c))) = (printer_id r, ''Fuser''))
           (candidates th ft r) =
     [((printer_id r, ''Fuser'', ''level''),
       \<lparr>alert_printer_id = printer_id r, alert_description = description r,
        item = ''Fuser'', level = str_of_int n @ ''%'',
        source = ''threshold <= '' @ str_of_int ft @ ''%''\<rparr>),
      ((printer_id r, ''Fuser'', ''status message reports low fuser''),
       \<lparr>alert_printer_id = printer_id r, alert_description = description r,
        item = ''Fuser'', level = ''reported'',
        source = ''status message reports low fuser''\<rparr>)]"
proof -
  define P :: "dedupe \<times> low_alert \<Rightarrow> bool"
    where "P = (\<lambda>c. (fst (fst c), fst (snd (fst c))) = (printer_id r, ''Fuser''))"
  have "filter P (toner_cands r th ch) = []" for ch
    using toner_item_not_fuser by (auto simp: P_def filter_empty_conv dest!: toner_cands_item)
  then have t: "filter P (concat (map (toner_cands r th) chs)) = []" for chs
    by (induction chs) simp_all
  have f: "filter P (fuser_cands r ft) =
     [((printer_id r, ''Fuser'', ''level''),
       \<lparr>alert_printer_id = printer_id r, alert_description = description r,
        item = ''Fuser'', level = str_of_int n @ ''%'',
        source = ''threshold <= '' @ str_of_int ft @ ''%''\<rparr>)]"
    using lv by (simp add: fuser_cands_def P_def)
  have k: "filter P (concat (map (keyword_cands r) keyword_rules)) =
     [((printer_id r, ''Fuser'', ''status message reports low fuser''),
       \<lparr>alert_printer_id = printer_id r, alert_description = description r,
        item = ''Fuser'', level = ''reported'',
        source = ''status message reports low fuser''\<rparr>)]"
    using kw by (simp add: keyword_rules_def keyword_cands_def P_def)
  have "filter P (candidates th ft r) =
      filter P (concat (map (toner_cands r th) [''k'', ''c'', ''m'', ''y''])) @
      filter P (fuser_cands r ft) @
      filter P (concat (map (keyword_cands r) keyword_rules))"
    by (simp only: candidates_def filter_append)
  then show ?thesis
    unfolding t f k by (simp add: P_def)
qed

lemmas alert_eval =
  build_low_alerts_def record_step_def toner_step_def mono_like_def fuser_step_def
  keyword_step_def keyword_rules_def low_pattern_def status_blob_def emit_def COLOR_MAP_def
  word_boundary_def is_space_def less_eq_prod_def less_char_def

section \<open>Alerts of a monochrome-like record\<close>

text \<open>
  C5, as the specification states it, fails: the record below has the toner levels of the
  claim and no keyword phrase in its texts, and the engine emits two alerts for it, since
  its fuser level 10 is below the fuser threshold 20.
\<close>

theorem mono_like_fuser_counterexample:
  "status_blob \<lparr>printer_id = ''10001'', description = ''Library'',
          status_message = ''Ready'', printer_text = ''None'', device_last_update = [],
          row_tail = [],
          levels = [(''toner_k'', 5), (''toner_c'', 0), (''toner_m'', 0), (''toner_y'', 0),
                    (''fuser'', 10)],
          empty_trays = []\<rparr> = ''ready none'' \<and>
   re_search (low_pattern ''toner'') False ''ready none'' = None \<and>
   re_search (low_pattern ''ink'') False ''ready none'' = None \<and>
   re_search (low_pattern ''fuser'') False ''ready none'' = None \<and>
   build_low_alerts
     [\<lparr>printer_id = ''10001'', description = ''Library'',
       status_message = ''Ready'', printer_text = ''None'', device_last_update = [],
       row_tail = [],
       levels = [(''toner_k'', 5), (''toner_c'', 0), (''toner_m'', 0), (''toner_y'', 0),
                 (''fuser'', 10)],
       empty_trays = []\<rparr>] 15 20 =
     [\<lparr>alert_printer_id = ''10001'', alert_description = ''Library'',
       item = ''Black Toner'', level = ''5%'', source = ''threshold <= 15%''\<rparr>,
      \<lparr>alert_printer_id = ''10001'', alert_description = ''Library'',
       item = ''Fuser'', level = ''10%'', source = ''threshold <= 20%''\<rparr>]"
  by (simp add: alert_eval string_eval)

text \<open>
  C5 (amended): take a record with \<open>toner_c = toner_m = toner_y = 0\<close> and
  \<open>toner_k = 5\<close> whose status message and printer text match none of the keyword
  rules, in a list where no other record has its printer id, and the toner threshold 15.
  The alerts for its printer are the alert \<^verbatim>\<open>"Black Toner"\<close> with level \<^verbatim>\<open>"5%"\<close>,
  followed by a \<^verbatim>\<open>"Fuser"\<close> threshold alert exactly when the record has a fuser level
  at or below the fuser threshold. So there is exactly one toner alert and no cyan,
  magenta or yellow one, and the black toner alert is the only alert when the fuser
  level is absent or above its threshold.
\<close>

theorem mono_like_alerts:
  assumes r: "r \<in> set rs"
    and only: "\<forall>r' \<in> set rs. printer_id r' = printer_id r \<longrightarrow> r' = r"
    and k: "map_of (levels r) ''toner_k'' = Some 5"
    and cmy: "map_of (levels r) ''toner_c'' = Some 0" "map_of (levels r) ''toner_m'' = Some 0"
      "map_of (levels r) ''toner_y'' = Some 0"
    and quiet: "\<forall>kr \<in> set keyword_rules. re_search (fst kr) False (status_blob r) = None"
  shows
    "filter (\<lambda>a. alert_printer_id a = printer_id r) (build_low_alerts rs 15 fuser_threshold) =
       \<lparr>alert_printer_id = printer_id r, alert_description = description r,
        item = ''Black Toner'', level = ''5%'', source = ''threshold <= 15%''\<rparr> #
       (case map_of (levels r) ''fuser'' of
          None \<Rightarrow> []
        | Some f \<Rightarrow>
            if f \<le> fuser_threshold then
              [\<lparr>alert_printer_id = printer_id r, alert_description = description r,
                item = ''Fuser'', level = str_of_int f @ ''%'',
                source = ''threshold <= '' @ str_of_int fuser_threshold @ ''%''\<rparr>]
            else [])"
  by (simp only: device_alerts [OF r only] mono_record_alerts [OF k cmy quiet])

theorem mono_like_alerts_witness:
  "filter (\<lambda>a. alert_printer_id a = ''10001'')
     (build_low_alerts
        [\<lparr>printer_id = ''10001'', description = ''Library'',
          status_message = ''Ready'', printer_text = ''None'', device_last_update = [],
          row_tail = [],
          levels = [(''toner_k'', 5), (''toner_c'', 0), (''toner_m'', 0), (''toner_y'', 0),
                    (''fuser'', 60)],
          empty_trays = []\<rparr>] 15 20) =
     [\<lparr>alert_printer_id = ''10001'', alert_description = ''Library'',
       item = ''Black Toner'', level = ''5%'', source = ''threshold <= 15%''\<rparr>]"
proof -
  let ?r = "\<lparr>printer_id = ''10001'', description = ''Library'',
          status_message = ''Ready'', printer_text = ''None'', device_last_update = [],
          row_tail = [],
          levels = [(''toner_k'', 5), (''toner_c'', 0), (''toner_m'', 0), (''toner_y'', 0),
                    (''fuser'', 60 :: int)],
          empty_trays = []\<rparr>"
  have r: "?r \<in> set [?r]" by simp
  have only: "\<forall>r' \<in> set [?r]. printer_id r' = printer_id ?r \<longrightarrow> r' = ?r" by simp
  have k: "map_of (levels ?r) ''toner_k'' = Some 5" by simp
  have c: "map_of (levels ?r) ''toner_c'' = Some 0" by simp
  have m: "map_of (levels ?r) ''toner_m'' = Some 0" by simp
  have y: "map_of (levels ?r) ''toner_y'' = Some 0" by simp
  have quiet: "\<forall>kr \<in> set keyword_rules. re_search (fst kr) False (status_blob ?r) = None"
    by (simp add: alert_eval string_eval)
  from mono_like_alerts [OF r only k c m y quiet, of 20] show ?thesis
    by simp
qed

section \<open>Threshold and keyword alerts for the fuser\<close>

text \<open>
  The keyword rules look for words: \<^verbatim>\<open>low\<close>, white space, \<^verbatim>\<open>fuser\<close>, neither inside a
  longer word.
\<close>

lemma low_fuser_rule_examples:
  "re_search (low_pattern ''fuser'') False ''low fuser'' = Some ''low fuser''"
  "re_search (low_pattern ''fuser'') False ''tray 1 ok; low   fuser.'' = Some ''low   fuser''"
  "re_search (low_pattern ''fuser'') False ''slow fuser'' = None"
  "re_search (low_pattern ''fuser'') False ''low fusers'' = None"
  by (simp_all add: low_pattern_def word_boundary_def is_space_def string_eval)

text \<open>
  C6: take a record whose fuser level \<open>n\<close> is present and at or below the fuser
  threshold and whose lower-cased status message and printer text match the keyword
  rule for \<^verbatim>\<open>low fuser\<close> (the words \<^verbatim>\<open>low\<close> and \<^verbatim>\<open>fuser\<close>, white space between
  them). For every list of records that holds it, the engine emits exactly two alerts
  with the item \<^verbatim>\<open>"Fuser"\<close> for its printer. If no other record of the list has its
  printer id, they are the threshold alert with level \<^verbatim>\<open>"n%"\<close> and the keyword alert
  with level \<^verbatim>\<open>"reported"\<close>, in this order: their deduplication keys differ in the
  third component, \<^verbatim>\<open>"level"\<close> against the reason phrase.
\<close>

theorem fuser_two_alerts:
  assumes r: "r \<in> set rs"
    and lv: "map_of (levels r) ''fuser'' = Some n" "n \<le> fuser_threshold"
    and kw: "re_search (low_pattern ''fuser'') False (status_blob r) \<noteq> None"
  shows
    "length (filter (\<lambda>a. alert_printer_id a = printer_id r \<and> item a = ''Fuser'')
               (build_low_alerts rs toner_threshold fuser_threshold)) = 2 \<and>
     ((\<forall>r' \<in> set rs. printer_id r' = printer_id r \<longrightarrow> r' = r) \<longrightarrow>
        filter (\<lambda>a. alert_printer_id a = printer_id r \<and> item a = ''Fuser'')
          (build_low_alerts rs toner_threshold fuser_threshold) =
        [\<lparr>alert_printer_id = printer_id r, alert_description = description r,
          item = ''Fuser'', level = str_of_int n @ ''%'',
          source = ''threshold <= '' @ str_of_int fuser_threshold @ ''%''\<rparr>,
         \<lparr>alert_printer_id = printer_id r, alert_description = description r,
          item = ''Fuser'', level = ''reported'',
          source = ''status message reports low fuser''\<rparr>])"
proof (intro conjI impI)
  let ?th = toner_threshold and ?ft = fuser_threshold
  let ?k1 = "(printer_id r, ''Fuser'', ''level'')"
  let ?k2 = "(printer_id r, ''Fuser'', ''status message reports low fuser'')"
  let ?a1 = "\<lparr>alert_printer_id = printer_id r, alert_description = description r,
          item = ''Fuser'', level = str_of_int n @ ''%'',
          source = ''threshold <= '' @ str_of_int fuser_threshold @ ''%''\<rparr>"
  let ?a2 = "\<lparr>alert_printer_id = printer_id r, alert_description = description r,
          item = ''Fuser'', level = ''reported'',
          source = ''status message reports low fuser''\<rparr>"
  define K :: "string \<times> string \<Rightarrow> bool" where "K = (\<lambda>k. k = (printer_id r, ''Fuser''))"
  define g where
    "g = (\<lambda>r'. filter (\<lambda>c. K (fst (fst c), fst (snd (fst c)))) (candidates ?th ?ft r'))"
  have Q: "(\<lambda>a. alert_printer_id a = printer_id r \<and> item a = ''Fuser'') = (\<lambda>a. K (key_of a))"
    by (simp add: K_def key_of_def)
  have build: "filter (\<lambda>a. K (key_of a)) (build_low_alerts rs ?th ?ft) =
      sort_key (\<lambda>a. (alert_printer_id a, item a)) (fst (emits (concat (map g rs)) ([], {})))"
    unfolding g_def by (rule filter_build_low_alerts)
  have gr: "g r = [(?k1, ?a1), (?k2, ?a2)]"
    unfolding g_def K_def by (rule fuser_candidates [OF lv kw])
  have keys: "fst c = ?k1 \<or> fst c = ?k2" if "c \<in> set (g r')" for c r'
  proof -
    from that have c: "c \<in> set (candidates ?th ?ft r')" "fst (fst c) = printer_id r"
      "fst (snd (fst c)) = ''Fuser''"
      by (auto simp: g_def K_def)
    from candidates_key [OF c(1)] c(2) have "printer_id r' = printer_id r" by simp
    with fuser_candidate_keys [OF c(1) c(3)] show ?thesis by simp
  qed
  have "fst ` set (concat (map g rs)) = {?k1, ?k2}"
  proof
    show "fst ` set (concat (map g rs)) \<subseteq> {?k1, ?k2}"
    proof
      fix d assume "d \<in> fst ` set (concat (map g rs))"
      then obtain c r' where "c \<in> set (g r')" "d = fst c" by auto
      with keys [of c r'] show "d \<in> {?k1, ?k2}" by blast
    qed
    have "set (g r) \<subseteq> set (concat (map g rs))" using r by auto
    then show "{?k1, ?k2} \<subseteq> fst ` set (concat (map g rs))"
      unfolding gr by force
  qed
  then have "length (fst (emits (concat (map g rs)) ([], {}))) = 2"
    by (simp add: length_emits)
  then show "length (filter (\<lambda>a. alert_printer_id a = printer_id r \<and> item a = ''Fuser'')
               (build_low_alerts rs ?th ?ft)) = 2"
    by (simp add: Q build)
  assume only: "\<forall>r' \<in> set rs. printer_id r' = printer_id r \<longrightarrow> r' = r"
  have "g r' = g r \<or> g r' = []" if "r' \<in> set rs" for r'
  proof (cases "printer_id r' = printer_id r")
    case True
    with only that have "r' = r" by blast
    then show ?thesis by simp
  next
    case False
    then have "g r' = []"
      by (auto simp: g_def K_def filter_empty_conv dest: candidates_key)
    then show ?thesis ..
  qed
  then have "emits (concat (map g rs)) ([], {}) = emits (g r) ([], {})"
    using r by (subst emits_repeat [where cs = "g r"]) auto
  then have "fst (emits (concat (map g rs)) ([], {})) = [?a1, ?a2]"
    by (simp add: gr emit_def)
  then show "filter (\<lambda>a. alert_printer_id a = printer_id r \<and> item a = ''Fuser'')
          (build_low_alerts rs ?th ?ft) = [?a1, ?a2]"
    by (simp add: Q build)
qed

theorem fuser_two_alerts_witness:
  "filter (\<lambda>a. alert_printer_id a = ''10002'' \<and> item a = ''Fuser'')
     (build_low_alerts
        [\<lparr>printer_id = ''10002'', description = ''Annex'',
          status_message = ''Low Fuser'', printer_text = ''None'', device_last_update = [],
          row_tail = [], levels = [(''fuser'', 10)], empty_trays = []\<rparr>] 15 20) =
     [\<lparr>alert_printer_id = ''10002'', alert_description = ''Annex'',
       item = ''Fuser'', level = ''10%'', source = ''threshold <= 20%''\<rparr>,
      \<lparr>alert_printer_id = ''10002'', alert_description = ''Annex'',
       item = ''Fuser'', level = ''reported'',
       source = ''status message reports low fuser''\<rparr>]"
proof -
  let ?r = "\<lparr>printer_id = ''10002'', description = ''Annex'',
          status_message = ''Low Fuser'', printer_text = ''None'', device_last_update = [],
          row_tail = [], levels = [(''fuser'', 10 :: int)], empty_trays = []\<rparr>"
  have r: "?r \<in> set [?r]" by simp
  have only: "\<forall>r' \<in> set [?r]. printer_id r' = printer_id ?r \<longrightarrow> r' = ?r" by simp
  have lv: "map_of (levels ?r) ''fuser'' = Some 10" "(10 :: int) \<le> 20" by simp_all
  have kw: "re_search (low_pattern ''fuser'') False (status_blob ?r) \<noteq> None"
    by (simp add: alert_eval string_eval)
  from fuser_two_alerts [OF r lv kw, of 15] only show ?thesis
    by (simp add: string_eval)
qed

section \<open>The state store: what one pass does\<close>

lemma get_events_add_events [simp]: "get_events (add_events es d) = get_events d @ es"
  by (simp add: add_events_def get_events_def)

lemma add_events_Nil [simp]: "add_events [] d = d"
  by (simp add: add_events_def)

lemma add_events_add_events [simp]: "add_events es' (add_events es d) = add_events (es @ es') d"
  by (simp add: add_events_def get_events_def)

lemma append_event_add_events:
  "append_event ts et it nt d = add_events [make_event ts et it nt] d"
  by (simp add: append_event_def add_events_def)

lemma add_events_frame [simp]:
  "open_empty_trays (add_events es d) = open_empty_trays d"
  "last_scan_at (add_events es d) = last_scan_at d"
  "other_fields (add_events es d) = other_fields d"
  by (simp_all add: add_events_def)

lemma round_events_current_eq:
  "round_events_current previous t e =
     (if map_of previous (fst e) = None
      then [make_event t ''empty'' (stamp previous t e) ''detected by monitor''] else [])"
  by (cases e)
    (auto simp: round_events_current_def reconcile_current_def stamp_def append_event_def
      get_events_def default_document_def Let_def split: option.splits)

lemma round_events_previous_eq:
  "round_events_previous cur t e =
     (if map_of cur (fst e) = None
      then [make_event t ''filled'' (AList.update ''last_seen'' t (snd e))
              ''no longer reported empty''] else [])"
  by (cases e)
    (auto simp: round_events_previous_def reconcile_previous_def append_event_def
      get_events_def default_document_def Let_def)

lemma reconcile_current_eq:
  "reconcile_current previous t e (open_after, d, added) =
     (AList.update (fst e) (stamp previous t e) open_after,
      add_events (round_events_current previous t e) d,
      added + length (round_events_current previous t e))"
  by (cases e)
    (auto simp: round_events_current_eq reconcile_current_def stamp_def
      append_event_add_events Let_def split: option.splits)

lemma reconcile_previous_eq:
  "reconcile_previous cur t e (d, filled) =
     (add_events (round_events_previous cur t e) d,
      filled + length (round_events_previous cur t e))"
  by (cases e)
    (auto simp: round_events_previous_eq reconcile_previous_def append_event_add_events Let_def)

lemma fold_reconcile_current:
  "fold (reconcile_current previous t) cur (open_after, d, added) =
     (fold (\<lambda>e. AList.update (fst e) (stamp previous t e)) cur open_after,
      add_events (concat (map (round_events_current previous t) cur)) d,
      added + length (concat (map (round_events_current previous t) cur)))"
  by (induction cur arbitrary: open_after d added) (simp_all add: reconcile_current_eq)

lemma fold_reconcile_previous:
  "fold (reconcile_previous cur t) previous (d, filled) =
     (add_events (concat (map (round_events_previous cur t) previous)) d,
      filled + length (concat (map (round_events_previous cur t) previous)))"
  by (induction previous arbitrary: d filled) (simp_all add: reconcile_previous_eq)

lemma map_snd_reconcile_log:
  "map snd (reconcile_log previous cur t) =
     concat (map (round_events_current previous t) cur) @
     concat (map (round_events_previous cur t) previous)"
  by (simp add: reconcile_log_def map_concat comp_def)

lemma get_events_trim_events [simp]:
  "get_events (trim_events d) = last_events (get_events d)"
  by (simp add: trim_events_def get_events_def last_events_def Let_def)

lemma trim_events_frame [simp]:
  "open_empty_trays (trim_events d) = open_empty_trays d"
  "last_scan_at (trim_events d) = last_scan_at d"
  "other_fields (trim_events d) = other_fields d"
  by (simp_all add: trim_events_def Let_def)

lemma get_events_update_other [simp]:
  "get_events (d\<lparr>open_empty_trays := x\<rparr>) = get_events d"
  "get_events (d\<lparr>last_scan_at := y\<rparr>) = get_events d"
  by (simp_all add: get_events_def)

lemma length_last_events: "length (last_events es) \<le> MAX_EVENTS"
  by (simp add: last_events_def)

lemma reconcile_eq:
  "reconcile s cur t =
     (let previous = get_open_empties (data s);
          d = trim_events
                ((add_events (map snd (reconcile_log previous cur t)) (data s))
                   \<lparr>open_empty_trays := Some (open_after_of previous cur t),
                    last_scan_at := Some t\<rparr>)
      in (\<lparr>data = d, state_file = Stored d\<rparr>,
          length (concat (map (round_events_current previous t) cur)),
          length (concat (map (round_events_previous cur t) previous))))"
  by (simp add: reconcile_def Let_def fold_reconcile_current fold_reconcile_previous
      map_snd_reconcile_log open_after_of_def save_def)

text \<open>Dictionaries as association lists with distinct keys.\<close>

lemma filter_key_distinct:
  "distinct (map fst xs) \<Longrightarrow> map_of xs k = Some v \<Longrightarrow> filter (\<lambda>e. fst e = k) xs = [(k, v)]"
proof (induction xs)
  case Nil
  then show ?case by simp
next
  case (Cons x xs)
  show ?case
  proof (cases "fst x = k")
    case True
    with Cons.prems have "x = (k, v)" by (cases x) simp
    moreover from True Cons.prems have "k \<notin> fst ` set xs" by auto
    then have "filter (\<lambda>e. fst e = k) xs = []" by (auto simp: filter_empty_conv)
    ultimately show ?thesis by simp
  next
    case False
    with Cons show ?thesis by (cases x) auto
  qed
qed

lemma filter_key_absent:
  "map_of xs k = None \<Longrightarrow> filter (\<lambda>e. fst e = k) xs = []"
  by (auto simp: filter_empty_conv map_of_eq_None_iff)

lemma filter_key_concat:
  "filter (\<lambda>p. fst p = k) (concat (map (\<lambda>e. map (Pair (fst e)) (g e)) xs)) =
     concat (map (\<lambda>e. map (Pair k) (g e)) (filter (\<lambda>e. fst e = k) xs))"
  by (induction xs) (auto simp: filter_empty_conv)

lemma map_of_fold_update:
  "distinct (map fst cur) \<Longrightarrow>
   map_of (fold (\<lambda>e. AList.update (fst e) (f e)) cur oa) k =
     (case map_of cur k of Some v \<Rightarrow> Some (f (k, v)) | None \<Rightarrow> map_of oa k)"
proof (induction cur arbitrary: oa)
  case Nil
  then show ?case by simp
next
  case (Cons x cur)
  obtain k' v' where x: "x = (k', v')" by (cases x)
  from Cons.prems x have notin: "map_of cur k' = None"
    by (simp add: map_of_eq_None_iff)
  from Cons.prems have "distinct (map fst cur)" by simp
  from Cons.IH [OF this, of "AList.update k' (f x) oa"] notin x show ?case
    by (auto simp: update_conv' split: option.splits)
qed

lemma distinct_fold_update:
  "distinct (map fst oa) \<Longrightarrow> distinct (map fst (fold (\<lambda>e. AList.update (fst e) (f e)) cur oa))"
  by (induction cur arbitrary: oa) (simp_all add: distinct_update)

lemma distinct_open_after_of: "distinct (map fst (open_after_of previous cur t))"
  by (simp add: open_after_of_def distinct_fold_update)

lemma map_of_open_after_of:
  "distinct (map fst cur) \<Longrightarrow>
   map_of (open_after_of previous cur t) k =
     (case map_of cur k of Some v \<Rightarrow> Some (stamp previous t (k, v)) | None \<Rightarrow> None)"
  by (simp add: open_after_of_def map_of_fold_update split: option.splits)

lemma map_of_open_after_of_absent:
  "map_of cur k = None \<Longrightarrow> map_of (open_after_of previous cur t) k = None"
proof -
  have "fst ` set (fold (\<lambda>e. AList.update (fst e) (f e)) cur oa) = fst ` set cur \<union> fst ` set oa"
    for f :: "string \<times> tray_item \<Rightarrow> tray_item" and oa
    by (induction cur arbitrary: oa) (auto simp: dom_update)
  then have "fst ` set (open_after_of previous cur t) = fst ` set cur"
    by (simp add: open_after_of_def)
  moreover assume "map_of cur k = None"
  ultimately show ?thesis by (simp add: map_of_eq_None_iff)
qed

text \<open>The open set and the events after one reconciliation; the log, key by key.\<close>

lemma open_of_reconcile:
  "get_open_empties (data (fst (reconcile s cur t))) =
     open_after_of (get_open_empties (data s)) cur t"
  by (simp add: reconcile_eq Let_def get_open_empties_def)

lemma events_of_reconcile:
  "get_events (data (fst (reconcile s cur t))) =
     last_events (get_events (data s) @
                  map snd (reconcile_log (get_open_empties (data s)) cur t))"
  by (simp add: reconcile_eq Let_def)

lemma log_for_key:
  "filter (\<lambda>p. fst p = k) (reconcile_log previous cur t) =
     concat (map (\<lambda>e. map (Pair k) (round_events_current previous t e))
               (filter (\<lambda>e. fst e = k) cur)) @
     concat (map (\<lambda>e. map (Pair k) (round_events_previous cur t e))
               (filter (\<lambda>e. fst e = k) previous))"
  by (simp add: reconcile_log_def filter_key_concat)

lemma log_new_key:
  assumes "distinct (map fst cur)" "map_of cur k = Some it" "map_of previous k = None"
  shows "filter (\<lambda>p. fst p = k) (reconcile_log previous cur t) =
     [(k, make_event t ''empty''
            (AList.update ''last_seen'' t (AList.update ''since'' t it))
            ''detected by monitor'')]"
  using assms
  by (simp add: log_for_key filter_key_distinct filter_key_absent round_events_current_eq
      stamp_def)

lemma log_kept_key:
  assumes "distinct (map fst cur)" "map_of cur k = Some it"
    and "distinct (map fst previous)" "map_of previous k = Some prior"
  shows "filter (\<lambda>p. fst p = k) (reconcile_log previous cur t) = []"
  using assms
  by (simp add: log_for_key filter_key_distinct round_events_current_eq
      round_events_previous_eq)

lemma log_gone_key:
  assumes "map_of cur k = None"
    and "distinct (map fst previous)" "map_of previous k = Some prior"
  shows "filter (\<lambda>p. fst p = k) (reconcile_log previous cur t) =
     [(k, make_event t ''filled'' (AList.update ''last_seen'' t prior)
            ''no longer reported empty'')]"
  using assms
  by (simp add: log_for_key filter_key_distinct filter_key_absent round_events_previous_eq)

lemma log_event_types:
  "p \<in> set (reconcile_log previous cur t) \<Longrightarrow>
   map_of (snd p) ''event_type'' = Some ''empty'' \<or>
   map_of (snd p) ''event_type'' = Some ''filled''"
  by (auto simp: reconcile_log_def round_events_current_eq round_events_previous_eq
      make_event_def split: if_splits)

lemma item_get_update:
  "item_get (AList.update k v it) k' dflt = (if k' = k then v else item_get it k' dflt)"
  by (simp add: item_get_def update_conv')

section \<open>Manual resolution and the events a pass appends\<close>

lemma manual_mark_filled_open:
  assumes "map_of (get_open_empties (data s)) k = Some it"
  shows "manual_mark_filled s k ts =
     (let d = trim_events
                ((add_events [make_event ts ''filled'' (AList.update ''last_seen'' ts it)
                                ''manually marked filled''] (data s))
                   \<lparr>open_empty_trays := Some (AList.delete k (get_open_empties (data s))),
                    last_scan_at := Some ts\<rparr>)
      in (\<lparr>data = d, state_file = Stored d\<rparr>, True))"
  using assms by (simp add: manual_mark_filled_def Let_def append_event_add_events save_def)

lemma manual_mark_filled_absent:
  "map_of (get_open_empties (data s)) k = None \<Longrightarrow> manual_mark_filled s k ts = (s, False)"
  by (simp add: manual_mark_filled_def)

lemma set_last_events: "set (last_events es) \<subseteq> set es"
  by (simp add: last_events_def set_drop_subset)

lemma last_events_snoc: "last_events (es @ [e]) \<noteq> [] \<and> last (last_events (es @ [e])) = e"
  by (simp add: last_events_def MAX_EVENTS_def)

lemma make_event_fields:
  "map_of (make_event ts et it nt) ''timestamp'' = Some ts"
  "map_of (make_event ts et it nt) ''event_type'' = Some et"
  "map_of (make_event ts et it nt) ''note'' = Some nt"
  "map_of (make_event ts et it nt) ''last_seen'' = Some (item_get it ''last_seen'' [])"
  "map_of (make_event ts et it nt) ''empty_since'' = Some (item_get it ''since'' [])"
  by (simp_all add: make_event_def)

section \<open>Detection events\<close>

text \<open>
  C1, as the specification states it, fails: the event that reconciliation appends for a
  key that newly appears has the \<^verbatim>\<open>event_type\<close> \<^verbatim>\<open>"empty"\<close>, not \<^verbatim>\<open>"detected"\<close>
  (the word \<^verbatim>\<open>detected\<close> is in its note). Reconciling the snapshot of one tray against
  the default document gives exactly this event.
\<close>

theorem reconcile_detected_counterexample:
  "get_events (data (fst (reconcile
       \<lparr>data = default_document :: unit document, state_file = NoFile\<rparr>
       [(''10001::Tray 1'', [(''printer_id'', ''10001''), (''tray'', ''Tray 1'')])]
       ''2024-05-01T10:00:00''))) =
     [[(''timestamp'', ''2024-05-01T10:00:00''), (''event_type'', ''empty''),
       (''printer_id'', ''10001''), (''description'', []), (''tray'', ''Tray 1''),
       (''empty_since'', ''2024-05-01T10:00:00''), (''last_seen'', ''2024-05-01T10:00:00''),
       (''status_message'', []), (''printer_text'', []),
       (''note'', ''detected by monitor'')]] \<and>
   ''empty'' \<noteq> ''detected''"
  by (simp add: reconcile_def reconcile_current_def reconcile_previous_def
      get_open_empties_def default_document_def append_event_def get_events_def make_event_def
      item_get_def trim_events_def save_def MAX_EVENTS_def Let_def)

text \<open>
  C1 (amended): for every reconciliation of a snapshot (a dictionary, so its keys are
  distinct) against the persisted open set, the events after the pass are the events
  before it followed by the log of the pass, cut to the newest \<^const>\<open>MAX_EVENTS\<close>; each
  key that is in the snapshot and not in the prior open set has exactly one event in
  that log, whose \<^verbatim>\<open>event_type\<close> is the literal \<^verbatim>\<open>"empty"\<close> and whose note is
  \<^verbatim>\<open>"detected by monitor"\<close>; every event of the log has the type \<^verbatim>\<open>"empty"\<close> or
  \<^verbatim>\<open>"filled"\<close>, and if every event of the document has one of these types, so has
  every event after a reconciliation and after a manual resolution.
\<close>

theorem reconcile_new_key_event:
  assumes "distinct (map fst cur)"
  shows
    "get_events (data (fst (reconcile s cur t))) =
       last_events (get_events (data s) @
                    map snd (reconcile_log (get_open_empties (data s)) cur t)) \<and>
     (\<forall>k it. map_of cur k = Some it \<and> map_of (get_open_empties (data s)) k = None \<longrightarrow>
        (\<exists>ev. filter (\<lambda>p. fst p = k) (reconcile_log (get_open_empties (data s)) cur t) = [(k, ev)] \<and>
              map_of ev ''event_type'' = Some ''empty'' \<and>
              map_of ev ''note'' = Some ''detected by monitor'')) \<and>
     (\<forall>p \<in> set (reconcile_log (get_open_empties (data s)) cur t). known_event_type (snd p)) \<and>
     ((\<forall>e \<in> set (get_events (data s)). known_event_type e) \<longrightarrow>
        (\<forall>e \<in> set (get_events (data (fst (reconcile s cur t)))). known_event_type e) \<and>
        (\<forall>e \<in> set (get_events (data (fst (manual_mark_filled s key ts)))). known_event_type e))"
proof (intro conjI allI impI)
  let ?log = "reconcile_log (get_open_empties (data s)) cur t"
  show ev: "get_events (data (fst (reconcile s cur t))) =
      last_events (get_events (data s) @ map snd ?log)"
    by (rule events_of_reconcile)
  show "\<exists>ev. filter (\<lambda>p. fst p = k) ?log = [(k, ev)] \<and>
      map_of ev ''event_type'' = Some ''empty'' \<and> map_of ev ''note'' = Some ''detected by monitor''"
    if new: "map_of cur k = Some it \<and> map_of (get_open_empties (data s)) k = None" for k it
  proof -
    from new have "map_of cur k = Some it" and "map_of (get_open_empties (data s)) k = None"
      by blast+
    from log_new_key [OF assms this, of t] show ?thesis
      by (simp add: make_event_fields)
  qed
  show types: "\<forall>p \<in> set ?log. known_event_type (snd p)"
    by (auto simp: known_event_type_def dest: log_event_types)
  assume old: "\<forall>e \<in> set (get_events (data s)). known_event_type e"
  show "\<forall>e \<in> set (get_events (data (fst (reconcile s cur t)))). known_event_type e"
  proof
    fix e assume "e \<in> set (get_events (data (fst (reconcile s cur t))))"
    with ev have "e \<in> set (last_events (get_events (data s) @ map snd ?log))" by simp
    with set_last_events have "e \<in> set (get_events (data s) @ map snd ?log)" by blast
    with old types show "known_event_type e" by auto
  qed
  show "\<forall>e \<in> set (get_events (data (fst (manual_mark_filled s key ts)))). known_event_type e"
  proof (cases "map_of (get_open_empties (data s)) key")
    case None
    with old show ?thesis by (simp add: manual_mark_filled_absent)
  next
    case (Some it)
    let ?e = "make_event ts ''filled'' (AList.update ''last_seen'' ts it) ''manually marked filled''"
    have "get_events (data (fst (manual_mark_filled s key ts))) =
        last_events (get_events (data s) @ [?e])"
      by (simp add: manual_mark_filled_open [OF Some] Let_def)
    with set_last_events [of "get_events (data s) @ [?e]"]
    have "set (get_events (data (fst (manual_mark_filled s key ts)))) \<subseteq>
        set (get_events (data s) @ [?e])"
      by simp
    moreover have "known_event_type ?e"
      by (simp add: known_event_type_def make_event_fields)
    ultimately show ?thesis using old by auto
  qed
qed

theorem reconcile_new_key_event_witness:
  "distinct (map fst [(''10001::Tray 1'', [(''printer_id'', ''10001''), (''tray'', ''Tray 1'')])]) \<and>
   (\<exists>ev. filter (\<lambda>p. fst p = ''10001::Tray 1'')
            (reconcile_log
               (get_open_empties (data \<lparr>data = default_document :: unit document, state_file = NoFile\<rparr>))
               [(''10001::Tray 1'', [(''printer_id'', ''10001''), (''tray'', ''Tray 1'')])]
               ''2024-05-01T10:00:00'') = [(''10001::Tray 1'', ev)] \<and>
         map_of ev ''event_type'' = Some ''empty'' \<and>
         map_of ev ''note'' = Some ''detected by monitor'')"
proof -
  let ?cur = "[(''10001::Tray 1'', [(''printer_id'', ''10001''), (''tray'', ''Tray 1'')])]"
  let ?s = "\<lparr>data = default_document :: unit document, state_file = NoFile\<rparr>"
  have d: "distinct (map fst ?cur)" by simp
  have new: "map_of ?cur ''10001::Tray 1'' = Some [(''printer_id'', ''10001''), (''tray'', ''Tray 1'')] \<and>
      map_of (get_open_empties (data ?s)) ''10001::Tray 1'' = None"
    by (simp add: get_open_empties_def default_document_def)
  from reconcile_new_key_event [OF d, of ?s "''2024-05-01T10:00:00''"] new d
  show ?thesis by blast
qed

section \<open>The lifecycle of a key\<close>

text \<open>
  C2: three reconciliations in a row, at the times \<open>T1\<close>, \<open>T2\<close> and \<open>T3\<close>. The key
  \<open>K\<close> is not open at first, is in the first and in the second snapshot and is missing
  from the third.
  \<^item> After the first pass \<open>K\<close> is open with \<open>since = last_seen = T1\<close>, and the log of the
    pass holds exactly one event for \<open>K\<close>.
  \<^item> After the second pass \<open>K\<close> is open with its \<open>since\<close> unchanged and
    \<open>last_seen = T2\<close>, and the log of the pass holds no event for \<open>K\<close>.
  \<^item> After the third pass \<open>K\<close> is not open, and the log of the pass holds exactly one
    event for \<open>K\<close>: a \<^verbatim>\<open>"filled"\<close> event made from the entry of the second pass with
    \<open>last_seen = T3\<close>.
  Each pass leaves the events of the document as they were, followed by its log, cut to
  the newest \<^const>\<open>MAX_EVENTS\<close>.
\<close>

theorem tray_lifecycle:
  assumes closed: "map_of (get_open_empties (data s0)) K = None"
    and cur1: "distinct (map fst cur1)" "map_of cur1 K = Some it1"
    and cur2: "distinct (map fst cur2)" "map_of cur2 K = Some it2"
    and cur3: "map_of cur3 K = None"
    and s1: "s1 = fst (reconcile s0 cur1 T1)"
    and s2: "s2 = fst (reconcile s1 cur2 T2)"
    and s3: "s3 = fst (reconcile s2 cur3 T3)"
    and e1: "e1 = AList.update ''last_seen'' T1 (AList.update ''since'' T1 it1)"
    and e2: "e2 = AList.update ''last_seen'' T2 (AList.update ''since'' T1 it2)"
  shows
    "(map_of (get_open_empties (data s1)) K = Some e1 \<and>
      item_get e1 ''since'' [] = T1 \<and> item_get e1 ''last_seen'' [] = T1 \<and>
      filter (\<lambda>p. fst p = K) (reconcile_log (get_open_empties (data s0)) cur1 T1) =
        [(K, make_event T1 ''empty'' e1 ''detected by monitor'')] \<and>
      get_events (data s1) =
        last_events (get_events (data s0) @
                     map snd (reconcile_log (get_open_empties (data s0)) cur1 T1))) \<and>
     (map_of (get_open_empties (data s2)) K = Some e2 \<and>
      item_get e2 ''since'' [] = item_get e1 ''since'' [] \<and> item_get e2 ''last_seen'' [] = T2 \<and>
      filter (\<lambda>p. fst p = K) (reconcile_log (get_open_empties (data s1)) cur2 T2) = [] \<and>
      get_events (data s2) =
        last_events (get_events (data s1) @
                     map snd (reconcile_log (get_open_empties (data s1)) cur2 T2))) \<and>
     (map_of (get_open_empties (data s3)) K = None \<and>
      filter (\<lambda>p. fst p = K) (reconcile_log (get_open_empties (data s2)) cur3 T3) =
        [(K, make_event T3 ''filled'' (AList.update ''last_seen'' T3 e2)
               ''no longer reported empty'')] \<and>
      map_of (make_event T3 ''filled'' (AList.update ''last_seen'' T3 e2)
               ''no longer reported empty'') ''event_type'' = Some ''filled'' \<and>
      map_of (make_event T3 ''filled'' (AList.update ''last_seen'' T3 e2)
               ''no longer reported empty'') ''last_seen'' = Some T3 \<and>
      map_of (make_event T3 ''filled'' (AList.update ''last_seen'' T3 e2)
               ''no longer reported empty'') ''empty_since'' = Some T1 \<and>
      get_events (data s3) =
        last_events (get_events (data s2) @
                     map snd (reconcile_log (get_open_empties (data s2)) cur3 T3)))"
proof (intro conjI)
  have open1: "get_open_empties (data s1) = open_after_of (get_open_empties (data s0)) cur1 T1"
    by (simp add: s1 open_of_reconcile)
  have open2: "get_open_empties (data s2) = open_after_of (get_open_empties (data s1)) cur2 T2"
    by (simp add: s2 open_of_reconcile)
  have open3: "get_open_empties (data s3) = open_after_of (get_open_empties (data s2)) cur3 T3"
    by (simp add: s3 open_of_reconcile)
  show K1: "map_of (get_open_empties (data s1)) K = Some e1"
    using cur1 closed by (simp add: open1 map_of_open_after_of stamp_def e1)
  show "item_get e1 ''since'' [] = T1" "item_get e1 ''last_seen'' [] = T1"
    by (simp_all add: e1 item_get_update)
  show "filter (\<lambda>p. fst p = K) (reconcile_log (get_open_empties (data s0)) cur1 T1) =
      [(K, make_event T1 ''empty'' e1 ''detected by monitor'')]"
    unfolding e1 using cur1 closed by (rule log_new_key)
  show "get_events (data s1) =
      last_events (get_events (data s0) @
                   map snd (reconcile_log (get_open_empties (data s0)) cur1 T1))"
    by (simp add: s1 events_of_reconcile)
  have d1: "distinct (map fst (get_open_empties (data s1)))"
    by (simp add: open1 distinct_open_after_of)
  have since1: "item_get e1 ''since'' T2 = T1"
    by (simp add: e1 item_get_update)
  show K2: "map_of (get_open_empties (data s2)) K = Some e2"
    using cur2 K1 since1 by (simp add: open2 map_of_open_after_of stamp_def e2)
  show "item_get e2 ''since'' [] = item_get e1 ''since'' []" "item_get e2 ''last_seen'' [] = T2"
    by (simp_all add: e1 e2 item_get_update)
  show "filter (\<lambda>p. fst p = K) (reconcile_log (get_open_empties (data s1)) cur2 T2) = []"
    using cur2 d1 K1 by (rule log_kept_key)
  show "get_events (data s2) =
      last_events (get_events (data s1) @
                   map snd (reconcile_log (get_open_empties (data s1)) cur2 T2))"
    by (simp add: s2 events_of_reconcile)
  have d2: "distinct (map fst (get_open_empties (data s2)))"
    by (simp add: open2 distinct_open_after_of)
  show "map_of (get_open_empties (data s3)) K = None"
    using cur3 by (simp add: open3 map_of_open_after_of_absent)
  show "filter (\<lambda>p. fst p = K) (reconcile_log (get_open_empties (data s2)) cur3 T3) =
      [(K, make_event T3 ''filled'' (AList.update ''last_seen'' T3 e2)
             ''no longer reported empty'')]"
    using cur3 d2 K2 by (rule log_gone_key)
  show "map_of (make_event T3 ''filled'' (AList.update ''last_seen'' T3 e2)
             ''no longer reported empty'') ''event_type'' = Some ''filled''"
    "map_of (make_event T3 ''filled'' (AList.update ''last_seen'' T3 e2)
             ''no longer reported empty'') ''last_seen'' = Some T3"
    "map_of (make_event T3 ''filled'' (AList.update ''last_seen'' T3 e2)
             ''no longer reported empty'') ''empty_since'' = Some T1"
    by (simp_all add: make_event_fields item_get_update e2)
  show "get_events (data s3) =
      last_events (get_events (data s2) @
                   map snd (reconcile_log (get_open_empties (data s2)) cur3 T3))"
    by (simp add: s3 events_of_reconcile)
qed

theorem tray_lifecycle_witness:
  "map_of (get_open_empties (data \<lparr>data = default_document :: unit document, state_file = NoFile\<rparr>))
     ''10001::Tray 1'' = None \<and>
   map_of (get_open_empties (data (fst (reconcile
       \<lparr>data = default_document :: unit document, state_file = NoFile\<rparr>
       [(''10001::Tray 1'', [(''tray'', ''Tray 1'')])] ''T1'')))) ''10001::Tray 1'' =
     Some (AList.update ''last_seen'' ''T1'' (AList.update ''since'' ''T1'' [(''tray'', ''Tray 1'')])) \<and>
   map_of (get_open_empties (data (fst (reconcile (fst (reconcile (fst (reconcile
       \<lparr>data = default_document :: unit document, state_file = NoFile\<rparr>
       [(''10001::Tray 1'', [(''tray'', ''Tray 1'')])] ''T1''))
       [(''10001::Tray 1'', [(''tray'', ''Tray 1'')])] ''T2'')) [] ''T3'')))) ''10001::Tray 1'' = None"
proof -
  let ?s0 = "\<lparr>data = default_document :: unit document, state_file = NoFile\<rparr>"
  let ?cur = "[(''10001::Tray 1'', [(''tray'', ''Tray 1'')])]"
  have h0: "map_of (get_open_empties (data ?s0)) ''10001::Tray 1'' = None"
    by (simp add: get_open_empties_def default_document_def)
  have d: "distinct (map fst ?cur)" by simp
  have m: "map_of ?cur ''10001::Tray 1'' = Some [(''tray'', ''Tray 1'')]" by simp
  have m3: "map_of ([] :: (string \<times> tray_item) list) ''10001::Tray 1'' = None" by simp
  note L = tray_lifecycle [OF h0 d m d m m3 refl refl refl refl refl, of "''T1''" "''T2''" "''T3''"]
  from L have "map_of (get_open_empties (data (fst (reconcile ?s0 ?cur ''T1'')))) ''10001::Tray 1'' =
     Some (AList.update ''last_seen'' ''T1'' (AList.update ''since'' ''T1'' [(''tray'', ''Tray 1'')]))"
    by (rule conjunct1 [THEN conjunct1])
  moreover from L have "map_of (get_open_empties (data (fst (reconcile (fst (reconcile
      (fst (reconcile ?s0 ?cur ''T1'')) ?cur ''T2'')) [] ''T3'')))) ''10001::Tray 1'' = None"
    by (rule conjunct2 [THEN conjunct2, THEN conjunct1])
  ultimately show ?thesis using h0 by (intro conjI)
qed

section \<open>Manual resolution\<close>

text \<open>
  C7: manual resolution of a key that is open returns success, removes the key from the
  open set, appends exactly one event, which has the type \<^verbatim>\<open>"filled"\<close>, the note
  \<^verbatim>\<open>"manually marked filled"\<close> and \<open>last_seen\<close> equal to the given timestamp (it is the
  last event of the document afterwards), and writes the document to the state file.
  Manual resolution of a key that is not open returns failure and leaves the store as it
  was: no event, the same document, the same state file.
\<close>

theorem manual_mark_filled_result:
  "(map_of (get_open_empties (data s)) k = Some it \<longrightarrow>
      snd (manual_mark_filled s k ts) = True \<and>
      get_open_empties (data (fst (manual_mark_filled s k ts))) =
        AList.delete k (get_open_empties (data s)) \<and>
      map_of (get_open_empties (data (fst (manual_mark_filled s k ts)))) k = None \<and>
      get_events (data (fst (manual_mark_filled s k ts))) =
        last_events (get_events (data s) @
          [make_event ts ''filled'' (AList.update ''last_seen'' ts it) ''manually marked filled'']) \<and>
      last (get_events (data (fst (manual_mark_filled s k ts)))) =
        make_event ts ''filled'' (AList.update ''last_seen'' ts it) ''manually marked filled'' \<and>
      map_of (make_event ts ''filled'' (AList.update ''last_seen'' ts it) ''manually marked filled'')
        ''event_type'' = Some ''filled'' \<and>
      map_of (make_event ts ''filled'' (AList.update ''last_seen'' ts it) ''manually marked filled'')
        ''note'' = Some ''manually marked filled'' \<and>
      map_of (make_event ts ''filled'' (AList.update ''last_seen'' ts it) ''manually marked filled'')
        ''last_seen'' = Some ts \<and>
      state_file (fst (manual_mark_filled s k ts)) = Stored (data (fst (manual_mark_filled s k ts)))) \<and>
   (map_of (get_open_empties (data s)) k = None \<longrightarrow>
      manual_mark_filled s k ts = (s, False) \<and>
      get_events (data (fst (manual_mark_filled s k ts))) = get_events (data s) \<and>
      data (fst (manual_mark_filled s k ts)) = data s \<and>
      state_file (fst (manual_mark_filled s k ts)) = state_file s)"
proof (intro conjI impI)
  assume absent: "map_of (get_open_empties (data s)) k = None"
  then show no: "manual_mark_filled s k ts = (s, False)"
    by (rule manual_mark_filled_absent)
  then show "get_events (data (fst (manual_mark_filled s k ts))) = get_events (data s)"
    "data (fst (manual_mark_filled s k ts)) = data s"
    "state_file (fst (manual_mark_filled s k ts)) = state_file s"
    by simp_all
next
  let ?e = "make_event ts ''filled'' (AList.update ''last_seen'' ts it) ''manually marked filled''"
  assume "map_of (get_open_empties (data s)) k = Some it"
  note eq = manual_mark_filled_open [OF this, of ts]
  show "snd (manual_mark_filled s k ts) = True"
    by (simp add: eq Let_def)
  show "get_open_empties (data (fst (manual_mark_filled s k ts))) =
      AList.delete k (get_open_empties (data s))"
    by (simp add: eq Let_def get_open_empties_def)
  then show "map_of (get_open_empties (data (fst (manual_mark_filled s k ts)))) k = None"
    by (simp add: delete_conv')
  show ev: "get_events (data (fst (manual_mark_filled s k ts))) =
      last_events (get_events (data s) @ [?e])"
    by (simp add: eq Let_def)
  show "last (get_events (data (fst (manual_mark_filled s k ts)))) = ?e"
    by (simp add: ev last_events_snoc)
  show "map_of ?e ''event_type'' = Some ''filled''" "map_of ?e ''note'' = Some ''manually marked filled''"
    "map_of ?e ''last_seen'' = Some ts"
    by (simp_all add: make_event_fields item_get_update)
  show "state_file (fst (manual_mark_filled s k ts)) = Stored (data (fst (manual_mark_filled s k ts)))"
    by (simp add: eq Let_def)
qed

theorem manual_mark_filled_result_witness:
  "map_of (get_open_empties (data
      \<lparr>data = \<lparr>open_empty_trays = Some [(''10001::Tray 1'', [(''tray'', ''Tray 1'')])],
               events = Some [], last_scan_at = Some ''T1'',
               other_fields = [(''schema'', 1 :: nat)]\<rparr>, state_file = NoFile\<rparr>))
     ''10001::Tray 1'' = Some [(''tray'', ''Tray 1'')] \<and>
   snd (manual_mark_filled
      \<lparr>data = \<lparr>open_empty_trays = Some [(''10001::Tray 1'', [(''tray'', ''Tray 1'')])],
               events = Some [], last_scan_at = Some ''T1'',
               other_fields = [(''schema'', 1 :: nat)]\<rparr>, state_file = NoFile\<rparr>
      ''10001::Tray 1'' ''T2'') = True \<and>
   map_of (get_open_empties (data
      \<lparr>data = \<lparr>open_empty_trays = Some [(''10001::Tray 1'', [(''tray'', ''Tray 1'')])],
               events = Some [], last_scan_at = Some ''T1'',
               other_fields = [(''schema'', 1 :: nat)]\<rparr>, state_file = NoFile\<rparr>))
     ''10001::Tray 2'' = None \<and>
   manual_mark_filled
      \<lparr>data = \<lparr>open_empty_trays = Some [(''10001::Tray 1'', [(''tray'', ''Tray 1'')])],
               events = Some [], last_scan_at = Some ''T1'',
               other_fields = [(''schema'', 1 :: nat)]\<rparr>, state_file = NoFile\<rparr>
      ''10001::Tray 2'' ''T2'' =
     (\<lparr>data = \<lparr>open_empty_trays = Some [(''10001::Tray 1'', [(''tray'', ''Tray 1'')])],
               events = Some [], last_scan_at = Some ''T1'',
               other_fields = [(''schema'', 1 :: nat)]\<rparr>, state_file = NoFile\<rparr>, False)"
proof -
  let ?s = "\<lparr>data = \<lparr>open_empty_trays = Some [(''10001::Tray 1'', [(''tray'', ''Tray 1'')])],
               events = Some [], last_scan_at = Some ''T1'',
               other_fields = [(''schema'', 1 :: nat)]\<rparr>, state_file = NoFile\<rparr>"
  have a: "map_of (get_open_empties (data ?s)) ''10001::Tray 1'' = Some [(''tray'', ''Tray 1'')]"
    by (simp add: get_open_empties_def)
  have b: "map_of (get_open_empties (data ?s)) ''10001::Tray 2'' = None"
    by (simp add: get_open_empties_def)
  from manual_mark_filled_result [of ?s "''10001::Tray 1''" "[(''tray'', ''Tray 1'')]" "''T2''"] a
  have "snd (manual_mark_filled ?s ''10001::Tray 1'' ''T2'') = True" by blast
  moreover
  from manual_mark_filled_result [of ?s "''10001::Tray 2''" "[]" "''T2''"] b
  have "manual_mark_filled ?s ''10001::Tray 2'' ''T2'' = (?s, False)" by blast
  ultimately show ?thesis using a b by (intro conjI)
qed

text \<open>
  C10: manual resolution of an open key sets \<^verbatim>\<open>last_scan_at\<close> to its timestamp, although
  no scan took place, and leaves every field of the document other than
  \<^verbatim>\<open>open_empty_trays\<close>, \<^verbatim>\<open>events\<close> and \<^verbatim>\<open>last_scan_at\<close> as it was; the document
  written to the state file is this one.
\<close>

theorem manual_mark_filled_frame:
  assumes "map_of (get_open_empties (data s)) k = Some it"
  shows "last_scan_at (data (fst (manual_mark_filled s k ts))) = Some ts \<and>
     get_last_scan (data (fst (manual_mark_filled s k ts))) = ts \<and>
     other_fields (data (fst (manual_mark_filled s k ts))) = other_fields (data s) \<and>
     state_file (fst (manual_mark_filled s k ts)) = Stored (data (fst (manual_mark_filled s k ts)))"
  by (simp add: manual_mark_filled_open [OF assms] Let_def get_last_scan_def)

theorem manual_mark_filled_frame_witness:
  "map_of (get_open_empties (data
      \<lparr>data = \<lparr>open_empty_trays = Some [(''10001::Tray 1'', [(''tray'', ''Tray 1'')])],
               events = Some [], last_scan_at = Some ''T1'',
               other_fields = [(''schema'', 1 :: nat)]\<rparr>, state_file = NoFile\<rparr>))
     ''10001::Tray 1'' = Some [(''tray'', ''Tray 1'')] \<and>
   get_last_scan (data (fst (manual_mark_filled
      \<lparr>data = \<lparr>open_empty_trays = Some [(''10001::Tray 1'', [(''tray'', ''Tray 1'')])],
               events = Some [], last_scan_at = Some ''T1'',
               other_fields = [(''schema'', 1 :: nat)]\<rparr>, state_file = NoFile\<rparr>
      ''10001::Tray 1'' ''T2''))) = ''T2'' \<and>
   other_fields (data (fst (manual_mark_filled
      \<lparr>data = \<lparr>open_empty_trays = Some [(''10001::Tray 1'', [(''tray'', ''Tray 1'')])],
               events = Some [], last_scan_at = Some ''T1'',
               other_fields = [(''schema'', 1 :: nat)]\<rparr>, state_file = NoFile\<rparr>
      ''10001::Tray 1'' ''T2''))) = [(''schema'', 1)]"
proof -
  let ?s = "\<lparr>data = \<lparr>open_empty_trays = Some [(''10001::Tray 1'', [(''tray'', ''Tray 1'')])],
               events = Some [], last_scan_at = Some ''T1'',
               other_fields = [(''schema'', 1 :: nat)]\<rparr>, state_file = NoFile\<rparr>"
  have a: "map_of (get_open_empties (data ?s)) ''10001::Tray 1'' = Some [(''tray'', ''Tray 1'')]"
    by (simp add: get_open_empties_def)
  from manual_mark_filled_frame [OF a, of "''T2''"] a show ?thesis by simp
qed

section \<open>The cap on the event log\<close>

text \<open>
  C8: after a reconciliation, and after a successful manual resolution, the document
  that is written to the state file has at most \<^const>\<open>MAX_EVENTS\<close> = 20000 events. They
  are the events before the operation followed by the appended ones, without the first
  (oldest) ones beyond the cap: the newest are kept, in their order.
\<close>

theorem event_log_capped:
  "length (get_events (data (fst (reconcile s cur t)))) \<le> MAX_EVENTS \<and>
   get_events (data (fst (reconcile s cur t))) =
     drop (length (get_events (data s) @ map snd (reconcile_log (get_open_empties (data s)) cur t))
             - MAX_EVENTS)
       (get_events (data s) @ map snd (reconcile_log (get_open_empties (data s)) cur t)) \<and>
   state_file (fst (reconcile s cur t)) = Stored (data (fst (reconcile s cur t))) \<and>
   (map_of (get_open_empties (data s)) k = Some it \<longrightarrow>
      length (get_events (data (fst (manual_mark_filled s k ts)))) \<le> MAX_EVENTS \<and>
      get_events (data (fst (manual_mark_filled s k ts))) =
        drop (length (get_events (data s) @
                [make_event ts ''filled'' (AList.update ''last_seen'' ts it) ''manually marked filled''])
              - MAX_EVENTS)
          (get_events (data s) @
             [make_event ts ''filled'' (AList.update ''last_seen'' ts it) ''manually marked filled'']) \<and>
      state_file (fst (manual_mark_filled s k ts)) = Stored (data (fst (manual_mark_filled s k ts)))) \<and>
   MAX_EVENTS = 20000"
proof (intro conjI impI)
  show "length (get_events (data (fst (reconcile s cur t)))) \<le> MAX_EVENTS"
    by (simp add: events_of_reconcile length_last_events)
  show "get_events (data (fst (reconcile s cur t))) =
     drop (length (get_events (data s) @ map snd (reconcile_log (get_open_empties (data s)) cur t))
             - MAX_EVENTS)
       (get_events (data s) @ map snd (reconcile_log (get_open_empties (data s)) cur t))"
    by (simp only: events_of_reconcile last_events_def)
  show "state_file (fst (reconcile s cur t)) = Stored (data (fst (reconcile s cur t)))"
    by (simp add: reconcile_eq Let_def)
  show "MAX_EVENTS = 20000" by (simp add: MAX_EVENTS_def)
next
  let ?e = "make_event ts ''filled'' (AList.update ''last_seen'' ts it) ''manually marked filled''"
  assume "map_of (get_open_empties (data s)) k = Some it"
  note eq = manual_mark_filled_open [OF this, of ts]
  have ev: "get_events (data (fst (manual_mark_filled s k ts))) =
      last_events (get_events (data s) @ [?e])"
    by (simp add: eq Let_def)
  show "length (get_events (data (fst (manual_mark_filled s k ts)))) \<le> MAX_EVENTS"
    by (simp only: ev length_last_events)
  show "get_events (data (fst (manual_mark_filled s k ts))) =
      drop (length (get_events (data s) @ [?e]) - MAX_EVENTS) (get_events (data s) @ [?e])"
    by (simp only: ev last_events_def)
  show "state_file (fst (manual_mark_filled s k ts)) = Stored (data (fst (manual_mark_filled s k ts)))"
    by (simp add: eq Let_def)
qed

theorem event_log_capped_witness:
  "map_of (get_open_empties (data
      \<lparr>data = \<lparr>open_empty_trays = Some [(''10001::Tray 1'', [(''tray'', ''Tray 1'')])],
               events = Some [], last_scan_at = Some ''T1'',
               other_fields = [(''schema'', 1 :: nat)]\<rparr>, state_file = NoFile\<rparr>))
     ''10001::Tray 1'' = Some [(''tray'', ''Tray 1'')] \<and>
   length (get_events (data (fst (manual_mark_filled
      \<lparr>data = \<lparr>open_empty_trays = Some [(''10001::Tray 1'', [(''tray'', ''Tray 1'')])],
               events = Some [], last_scan_at = Some ''T1'',
               other_fields = [(''schema'', 1 :: nat)]\<rparr>, state_file = NoFile\<rparr>
      ''10001::Tray 1'' ''T2'')))) \<le> MAX_EVENTS \<and>
   length (get_events (data (fst (reconcile
      \<lparr>data = \<lparr>open_empty_trays = Some [(''10001::Tray 1'', [(''tray'', ''Tray 1'')])],
               events = Some [], last_scan_at = Some ''T1'',
               other_fields = [(''schema'', 1 :: nat)]\<rparr>, state_file = NoFile\<rparr>
      [] ''T2'')))) \<le> MAX_EVENTS"
proof -
  let ?s = "\<lparr>data = \<lparr>open_empty_trays = Some [(''10001::Tray 1'', [(''tray'', ''Tray 1'')])],
               events = Some [], last_scan_at = Some ''T1'',
               other_fields = [(''schema'', 1 :: nat)]\<rparr>, state_file = NoFile\<rparr>"
  have a: "map_of (get_open_empties (data ?s)) ''10001::Tray 1'' = Some [(''tray'', ''Tray 1'')]"
    by (simp add: get_open_empties_def)
  from event_log_capped [of ?s "[]" "''T2''" "''10001::Tray 1''" "[(''tray'', ''Tray 1'')]" "''T2''"] a
  show ?thesis by blast
qed

section \<open>Loading the state file\<close>

text \<open>
  What \<^verbatim>\<open>StateStore.__init__\<close> does for each kind of state file. A missing file, a
  file that cannot be read and a file that is no JSON give the default document.
\<close>

lemma init_store_no_file:
  "init_store NoFile = Inr \<lparr>data = default_document, state_file = NoFile\<rparr>"
  by (simp add: init_store_def load_def)

lemma init_store_caught:
  "f = Unreadable \<or> f = NotJson \<Longrightarrow>
   init_store f = Inr \<lparr>data = default_document, state_file = f\<rparr>"
  by (auto simp: init_store_def load_def)

lemma init_store_stored:
  "init_store (Stored d) = Inr \<lparr>data = d, state_file = Stored d\<rparr>"
  by (simp add: init_store_def load_def)

text \<open>
  C9 does not hold for a state file whose bytes are no UTF-8 text: \<^verbatim>\<open>read_text\<close> raises
  \<^verbatim>\<open>UnicodeDecodeError\<close>, which is neither a \<^verbatim>\<open>JSONDecodeError\<close> nor an \<^verbatim>\<open>OSError\<close>,
  so it leaves \<^verbatim>\<open>load\<close> and the constructor: the store is not created.
\<close>

theorem init_store_not_utf8_raises:
  "init_store (NotUtf8 :: unit state_file) = Inl UnicodeDecodeError"
  by (simp add: init_store_def load_def)

end
